theory Spec2Isabelle
  imports Main
begin

section \<open>JavaScript values and errors\<close>

text \<open>
  The routing core of hitchy receives untyped JavaScript values. The model keeps the
  distinctions the code tests with \<open>typeof\<close>, \<open>Array.isArray\<close> and
  \<open>instanceof Map\<close>. Functions, arrays, objects and maps carry a reference number, since a
  \<open>Map\<close> compares such keys by identity. An object is the list of its own enumerable
  properties in the order \<open>for ... in\<close> visits them. Numbers are integers here: the code
  only asks for their type. Strings are lists of 8-bit characters, read as the code units
  0 to 255 of a JavaScript string.
\<close>

datatype jsval =
    JUndefined
  | JNull
  | JBool bool
  | JNum int
  | JStr string
  | JFun nat
  | JArr nat "jsval list"
  | JObj nat "(string \<times> jsval) list"
  | JMap nat "(jsval \<times> jsval) list"

text \<open>Every \<open>throw new TypeError( ... )\<close> of the source, with its message before formatting;
  \<open>RuntimeTypeError\<close> is a TypeError raised by the language itself (reading a property of
  \<open>undefined\<close>, calling what is no function, destructuring \<open>null\<close>), \<open>RangeError\<close> the one
  raised by \<open>new Array( n )\<close> for a length that is no array length, and \<open>Thrown\<close> is
  whatever a function of the caller throws.\<close>

datatype error = TypeError string | RuntimeTypeError string | RangeError string | Thrown jsval

text \<open>A function value is known by its reference only. What a call of it does is a
  parameter of the model: \<open>call f this args\<close> is the outcome of calling the function
  \<open>f\<close> on \<open>this\<close> with the arguments \<open>args\<close>.\<close>

type_synonym caller = "nat \<Rightarrow> jsval \<Rightarrow> jsval list \<Rightarrow> error + jsval"

fun getProp :: "jsval \<Rightarrow> string \<Rightarrow> jsval" where
  "getProp (JObj r ps) k = (case map_of ps k of None \<Rightarrow> JUndefined | Some v \<Rightarrow> v)"
| "getProp v k = JUndefined"

fun truthy :: "jsval \<Rightarrow> bool" where
  "truthy JUndefined = False"
| "truthy JNull = False"
| "truthy (JBool b) = b"
| "truthy (JNum n) = (n \<noteq> 0)"
| "truthy (JStr s) = (s \<noteq> [])"
| "truthy v = True"

text \<open>
  \<open>obj.hasOwnProperty( k )\<close> as the source writes it: the member \<open>hasOwnProperty\<close> is
  looked up on the object itself. An object with an own property of that name answers
  with that property: a function is called with the name and its result is read as a
  condition, any other value is no function and the call throws. Only an object without
  such a property reaches the test of the language.
\<close>

fun hasOwnProperty :: "caller \<Rightarrow> jsval \<Rightarrow> string \<Rightarrow> error + bool" where
  "hasOwnProperty call (JObj r ps) k =
     (case map_of ps ''hasOwnProperty'' of
        None \<Rightarrow> Inr (map_of ps k \<noteq> None)
      | Some (JFun f) \<Rightarrow>
          (case call f (JObj r ps) [JStr k] of Inl e \<Rightarrow> Inl e | Inr v \<Rightarrow> Inr (truthy v))
      | Some v \<Rightarrow> Inl (RuntimeTypeError ''hasOwnProperty is not a function''))"
| "hasOwnProperty call v k = Inr False"

section \<open>Strings and regular expressions\<close>

definition isLineTerminator :: "char \<Rightarrow> bool" where
  "isLineTerminator ch = (ch = CHR 0x0A \<or> ch = CHR 0x0D)"

definition isSpace :: "char \<Rightarrow> bool" where
  "isSpace ch = (ch = CHR 0x09 \<or> ch = CHR 0x0A \<or> ch = CHR 0x0B \<or> ch = CHR 0x0C \<or> ch = CHR 0x0D
      \<or> ch = CHR 0x20 \<or> ch = CHR 0xA0)"

definition isLower :: "char \<Rightarrow> bool" where
  "isLower ch = (97 \<le> (of_char ch :: nat) \<and> (of_char ch :: nat) \<le> 122)"

definition isUpper :: "char \<Rightarrow> bool" where
  "isUpper ch = (65 \<le> (of_char ch :: nat) \<and> (of_char ch :: nat) \<le> 90)"

definition isDigit :: "char \<Rightarrow> bool" where
  "isDigit ch = (48 \<le> (of_char ch :: nat) \<and> (of_char ch :: nat) \<le> 57)"

definition isLetter :: "char \<Rightarrow> bool" where
  "isLetter ch = (isLower ch \<or> isUpper ch)"

definition isWord :: "char \<Rightarrow> bool" where
  "isWord ch = (isLetter ch \<or> isDigit ch \<or> ch = CHR ''_'')"

text \<open>\<open>String.prototype.toUpperCase\<close> on the code units 0 to 255: the letters \<open>a\<close> to
  \<open>z\<close> and the letters 0xE0 to 0xFE other than the division sign 0xF7 move down by 32,
  the sharp s 0xDF becomes \<open>SS\<close>. The upper case of 0xB5 and of 0xFF lies beyond code unit
  255, which a string of this model cannot hold: these two stay as they are.\<close>

definition isLatinLower :: "char \<Rightarrow> bool" where
  "isLatinLower ch = (224 \<le> (of_char ch :: nat) \<and> (of_char ch :: nat) \<le> 254 \<and> (of_char ch :: nat) \<noteq> 247)"

definition upperChar :: "char \<Rightarrow> char" where
  "upperChar ch = (if isLower ch \<or> isLatinLower ch then char_of ((of_char ch :: nat) - 32) else ch)"

definition upperText :: "char \<Rightarrow> string" where
  "upperText ch = (if ch = CHR 0xDF then ''SS'' else [upperChar ch])"

definition lowerChar :: "char \<Rightarrow> char" where
  "lowerChar ch = (if isUpper ch then char_of ((of_char ch :: nat) + 32) else ch)"

definition toUpperCase :: "string \<Rightarrow> string" where
  "toUpperCase s = concat (map upperText s)"

definition toLowerCase :: "string \<Rightarrow> string" where
  "toLowerCase s = map lowerChar s"

definition trim :: "string \<Rightarrow> string" where
  "trim s = rev (dropWhile isSpace (rev (dropWhile isSpace s)))"

text \<open>
  The regular expressions of the source are kept as data and run by a backtracking matcher
  that returns every way to match, best first, as the JavaScript matcher would try them:
  a greedy star prefers one more round, a lazy star prefers to stop, an alternative prefers
  its left branch. A round of a star that consumes nothing is dropped. A match state is the
  position in the input, the rest of the input and the captures made so far.
\<close>

datatype re =
    Chr "char \<Rightarrow> bool"
  | Bol
  | Eol
  | Eps
  | Seq re re
  | Alt re re
  | Star re
  | LazyStar re
  | Grp nat re

type_synonym captures = "nat \<Rightarrow> string option"
type_synonym mstate = "nat \<times> string \<times> captures"

function ms :: "re \<Rightarrow> mstate \<Rightarrow> mstate list" where
  "ms (Chr P) (i, s, c) = (case s of [] \<Rightarrow> [] | x # xs \<Rightarrow> if P x then [(Suc i, xs, c)] else [])"
| "ms Bol (i, s, c) = (if i = 0 then [(i, s, c)] else [])"
| "ms Eol (i, s, c) = (if s = [] then [(i, s, c)] else [])"
| "ms Eps (i, s, c) = [(i, s, c)]"
| "ms (Seq a b) (i, s, c) = concat (map (ms b) (ms a (i, s, c)))"
| "ms (Alt a b) (i, s, c) = ms a (i, s, c) @ ms b (i, s, c)"
| "ms (Star a) (i, s, c) =
     concat (map (\<lambda>(j, t, d). if length t < length s then ms (Star a) (j, t, d) else [])
                 (ms a (i, s, c))) @ [(i, s, c)]"
| "ms (LazyStar a) (i, s, c) =
     (i, s, c) # concat (map (\<lambda>(j, t, d). if length t < length s then ms (LazyStar a) (j, t, d) else [])
                 (ms a (i, s, c)))"
| "ms (Grp n a) (i, s, c) = map (\<lambda>(j, t, d). (j, t, d(n \<mapsto> take (j - i) s))) (ms a (i, s, c))"
  by pat_completeness auto
termination
  by (relation "inv_image (less_than <*lex*> less_than) (\<lambda>(r, i, s, c). (size r, length s))") auto

definition Opt :: "re \<Rightarrow> re" where
  "Opt a = Alt a Eps"

definition Plus :: "re \<Rightarrow> re" where
  "Plus a = Seq a (Star a)"

definition LazyPlus :: "re \<Rightarrow> re" where
  "LazyPlus a = Seq a (LazyStar a)"

definition Lit :: "char \<Rightarrow> re" where
  "Lit x = Chr (\<lambda>ch. ch = x)"

definition OneOf :: "string \<Rightarrow> re" where
  "OneOf xs = Chr (\<lambda>ch. ch \<in> set xs)"

definition NoneOf :: "string \<Rightarrow> re" where
  "NoneOf xs = Chr (\<lambda>ch. ch \<notin> set xs)"

definition Dot :: re where
  "Dot = Chr (\<lambda>ch. \<not> isLineTerminator ch)"

text \<open>\<open>RegExp.prototype.exec\<close> without the global flag: the first start position with a
  match, and there the preferred match. It yields the captures; capture 0 is the match.\<close>

fun search :: "re \<Rightarrow> nat \<Rightarrow> string \<Rightarrow> mstate list" where
  "search r i [] = ms r (i, [], Map.empty)"
| "search r i (x # xs) = ms r (i, x # xs, Map.empty) @ search r (Suc i) xs"

definition exec :: "re \<Rightarrow> string \<Rightarrow> captures option" where
  "exec r s = (case search (Grp 0 r) 0 s of [] \<Rightarrow> None | (j, t, c) # rest \<Rightarrow> Some c)"

definition test :: "re \<Rightarrow> string \<Rightarrow> bool" where
  "test r s = (exec r s \<noteq> None)"

section \<open>Route sources\<close>

text \<open>\<open>Route.preparseSource\<close>: its two regular expressions,
  \<^verbatim>\<open>/^(?:(\*|[a-z][-a-z]+)\s+)?([=~]?\/.*?)(?:\s*=>.+)?$/i\<close> and
  \<^verbatim>\<open>/^[^/]|\/\/|\/:(?:\W|$)|\(\)/\<close>.\<close>

definition sourcePattern :: re where
  "sourcePattern =
     Seq Bol
    (Seq (Opt (Seq (Grp 1 (Alt (Lit CHR ''*'')
                               (Seq (Chr isLetter) (Plus (Chr (\<lambda>ch. ch = CHR ''-'' \<or> isLetter ch))))))
                   (Plus (Chr isSpace))))
    (Seq (Grp 2 (Seq (Opt (OneOf ''=~'')) (Seq (Lit CHR ''/'') (LazyStar Dot))))
    (Seq (Opt (Seq (Star (Chr isSpace)) (Seq (Lit CHR ''='') (Seq (Lit CHR ''>'') (Plus Dot)))))
         Eol)))"

definition invalidPathPattern :: re where
  "invalidPathPattern =
     Alt (Seq Bol (NoneOf ''/''))
    (Alt (Seq (Lit CHR ''/'') (Lit CHR ''/''))
    (Alt (Seq (Lit CHR ''/'') (Seq (Lit CHR '':'') (Alt (Chr (\<lambda>ch. \<not> isWord ch)) Eol)))
         (Seq (Lit CHR ''('') (Lit CHR '')''))))"

record preparsed =
  ps_type :: string
  ps_url :: string
  ps_prefix :: bool
  ps_exact :: bool

text \<open>The part of \<open>preparseSource\<close> after its \<open>switch\<close>: \<open>type\<close> and \<open>url\<close> as the
  switch left them.\<close>

definition checkSource :: "jsval \<Rightarrow> jsval \<Rightarrow> error + preparsed" where
  "checkSource type0 url0 =
     (case type0 of
        JStr t \<Rightarrow>
          (let t1 = toUpperCase (trim t);
               t2 = (if t1 = [] \<or> t1 = ''*'' then ''ALL'' else t1)
           in case url0 of
                JStr u \<Rightarrow>
                  (let exact = (take 1 u = ''='');
                       prefix = (take 1 u = ''~'');
                       u1 = (if exact \<or> prefix then trim (drop 1 u) else u)
                   in if test invalidPathPattern u1
                      then Inl (TypeError ''path of route must begin with a slash'')
                      else Inr \<lparr> ps_type = t2, ps_url = u1, ps_prefix = prefix, ps_exact = exact \<rparr>)
              | _ \<Rightarrow> Inl (TypeError ''invalid URL in route %s''))
      | _ \<Rightarrow> Inl (TypeError ''route w/ invalid type %s''))"

fun isString :: "jsval \<Rightarrow> bool" where
  "isString (JStr s) = True"
| "isString v = False"

definition capture :: "captures option \<Rightarrow> nat \<Rightarrow> jsval" where
  "capture m n = (case m of None \<Rightarrow> JUndefined
                  | Some c \<Rightarrow> (case c n of None \<Rightarrow> JUndefined | Some x \<Rightarrow> JStr x))"

fun preparseSource :: "caller \<Rightarrow> jsval \<Rightarrow> error + preparsed" where
  "preparseSource call (JStr d) =
     (let m = exec sourcePattern (trim d);
          type0 = capture m 1;
          url0 = capture m 2
      in checkSource (if type0 = JUndefined then JStr ''ALL'' else type0) url0)"
| "preparseSource call (JObj r ps) =
     (case getProp (JObj r ps) ''url'' of
        JStr u \<Rightarrow>
          (if length (trim u) > 0 then
             (if getProp (JObj r ps) ''type'' = JUndefined \<or> isString (getProp (JObj r ps) ''type'') then
                (case hasOwnProperty call (JObj r ps) ''type'' of
                   Inl e \<Rightarrow> Inl e
                 | Inr own \<Rightarrow>
                     checkSource (if own then getProp (JObj r ps) ''type'' else JStr ''ALL'') (JStr u))
              else Inl (TypeError ''invalid type on route for URL %s''))
           else Inl (TypeError ''invalid route %s''))
      | _ \<Rightarrow> Inl (TypeError ''invalid route %s''))"
| "preparseSource call v = Inl (TypeError ''invalid route %s'')"


text \<open>\<open>String.prototype.replace\<close> with a regular expression without the global flag:
  the first match is replaced, a string without a match is returned as it is.\<close>

definition replaceFirst :: "re \<Rightarrow> string \<Rightarrow> string \<Rightarrow> string" where
  "replaceFirst r new s =
     (case search (Grp 0 r) 0 s of
        [] \<Rightarrow> s
      | (j, t, c) # rest \<Rightarrow> take (j - length (case c 0 of None \<Rightarrow> [] | Some m \<Rightarrow> m)) s @ new @ t)"

subsection \<open>The pattern compiler\<close>

text \<open>
  \<open>Parser\<close> and \<open>Compiler\<close> are \<open>pathToRegexp\<close> and \<open>compile\<close> of the package
  path-to-regexp, which is not part of this repository: the model takes them as
  parameters. \<open>Parser\<close> receives the path and the options and yields the source text of
  the regular expression together with the parameters it found, or throws. \<open>Compiler\<close>
  yields the render function of a path, or throws; a render function maps the values
  of the parameters to a path, or throws.
\<close>

record parser_options =
  sensitive :: bool
  end_opt :: "bool option"
  strict_opt :: "bool option"

datatype pname = Named string | Numbered nat

record parameter =
  p_name :: pname
  p_prefix :: string
  p_suffix :: string
  p_pattern :: string
  p_modifier :: string

datatype pvalue = VStr string | VArr "string list"

text \<open>Assigning a value that is no object to the key \<open>__proto__\<close> of an object literal
  creates no own property and changes nothing.\<close>

definition assign :: "(string \<rightharpoonup> 'a) \<Rightarrow> string \<Rightarrow> 'a \<Rightarrow> (string \<rightharpoonup> 'a)" where
  "assign obj k v = (if k = ''__proto__'' then obj else obj(k \<mapsto> v))"

text \<open>The values handed to a render function: the object \<open>values\<close>, as the map of its own
  properties and its prototype. Assigning an array to the key \<open>__proto__\<close> makes that
  array the prototype of the object, where a render function reads it; \<open>pv_proto\<close> is
  \<open>None\<close> as long as the prototype is the one every object literal has.\<close>

record pvalues =
  pv_own :: "string \<rightharpoonup> pvalue"
  pv_proto :: "string list option"



type_synonym renderer = "pvalues \<Rightarrow> error + string"
type_synonym parser = "string \<Rightarrow> parser_options \<Rightarrow> error + (string \<times> parameter list)"
type_synonym compiler = "string \<Rightarrow> error + renderer"

text \<open>\<open>Route.parseSource\<close>. The prefix is taken with
  \<^verbatim>\<open>/^([^*+?(:[{]*)(.[*+?]|[(:[{]|$)/\<close>, and a final slash is cut with \<^verbatim>\<open>/\/$/\<close>.\<close>

definition prefixPattern :: re where
  "prefixPattern =
     Seq Bol
    (Seq (Grp 1 (Star (NoneOf ''*+?(:[{'')))
         (Grp 2 (Alt (Seq Dot (OneOf ''*+?'')) (Alt (OneOf ''(:[{'') Eol))))"

definition finalSlash :: re where
  "finalSlash = Seq (Lit CHR ''/'') Eol"

definition extractPrefix :: "string \<Rightarrow> error + string" where
  "extractPrefix url =
     (case exec prefixPattern url of
        None \<Rightarrow> Inl (RuntimeTypeError ''object null is not iterable'')
      | Some c \<Rightarrow>
          (case c 1 of
             None \<Rightarrow> Inl (RuntimeTypeError ''cannot read properties of undefined'')
           | Some p \<Rightarrow>
               (let p1 = replaceFirst finalSlash [] p
                in Inr (if length p1 = 0 then ''/'' else p1))))"

definition sourceEnd :: "preparsed \<Rightarrow> bool \<Rightarrow> bool" where
  "sourceEnd p isMatchingPrefix =
     (let end0 = \<not> isMatchingPrefix;
          end1 = (if ps_prefix p then False else end0);
          end2 = (if ps_exact p then True else end1)
      in end2)"

record compiled_source =
  cs_method :: string
  cs_definition :: string
  cs_pattern :: string
  cs_parameters :: "parameter list"
  cs_prefix :: string
  cs_render :: renderer

definition parseSource ::
  "caller \<Rightarrow> parser \<Rightarrow> compiler \<Rightarrow> jsval \<Rightarrow> bool \<Rightarrow> error + compiled_source" where
  "parseSource call Parser Compiler source isMatchingPrefix =
     (case preparseSource call source of
        Inl e \<Rightarrow> Inl e
      | Inr p \<Rightarrow>
          (case Parser (ps_url p)
                  \<lparr> sensitive = True, end_opt = Some (sourceEnd p isMatchingPrefix), strict_opt = None \<rparr> of
             Inl e \<Rightarrow> Inl e
           | Inr (pat, params) \<Rightarrow>
               (case extractPrefix (ps_url p) of
                  Inl e \<Rightarrow> Inl e
                | Inr pre \<Rightarrow>
                    (case Compiler (ps_url p) of
                       Inl e \<Rightarrow> Inl e
                     | Inr render \<Rightarrow>
                         Inr \<lparr> cs_method = ps_type p, cs_definition = ps_url p, cs_pattern = pat,
                               cs_parameters = params, cs_prefix = pre, cs_render = render \<rparr>))))"

text \<open>The method token of a string source in the words of the documentation: the source
  without surrounding white space either starts with its path (\<open>/\<close>, \<open>=\<close> or \<open>~\<close>) and
  has no method token, or its method token is everything before the first white space.\<close>

definition methodToken :: "string \<Rightarrow> string option" where
  "methodToken d =
     (let t = trim d
      in if take 1 t = ''/'' \<or> take 1 t = ''='' \<or> take 1 t = ''~'' then None
         else Some (takeWhile (\<lambda>ch. \<not> isSpace ch) t))"

text \<open>The marker of a source in the words of the documentation. The path of a string
  source is the source without surrounding white space when that starts with \<open>/\<close>,
  \<open>=\<close> or \<open>~\<close>, and otherwise what follows the method token and the white space after
  it; the path of a descriptor is its property \<open>url\<close>. The marker is the first character
  of the path.\<close>

definition sourcePath :: "string \<Rightarrow> string" where
  "sourcePath d =
     (let t = trim d
      in if take 1 t = ''/'' \<or> take 1 t = ''='' \<or> take 1 t = ''~'' then t
         else dropWhile isSpace (dropWhile (\<lambda>ch. \<not> isSpace ch) t))"

fun sourceMarker :: "jsval \<Rightarrow> string" where
  "sourceMarker (JStr d) = take 1 (sourcePath d)"
| "sourceMarker (JObj r ps) = (case getProp (JObj r ps) ''url'' of JStr u \<Rightarrow> take 1 u | _ \<Rightarrow> [])"
| "sourceMarker v = []"

section \<open>Route targets\<close>

text \<open>
  The three classes \<open>Route\<close>, \<open>TerminalRoute\<close> and \<open>PolicyRoute\<close> differ in the static
  getters \<open>tailPattern\<close> (\<^verbatim>\<open>/Controller$/i\<close> or \<^verbatim>\<open>/Policy$/i\<close>),
  \<open>collectionSingularName\<close> and \<open>collectionPluralName\<close>.
\<close>

datatype variant = BaseRoute | TerminalRoute | PolicyRoute

fun LitNoCase :: "string \<Rightarrow> re" where
  "LitNoCase [] = Eps"
| "LitNoCase (x # xs) = Seq (Chr (\<lambda>ch. lowerChar ch = lowerChar x)) (LitNoCase xs)"

fun tailPattern :: "variant \<Rightarrow> re" where
  "tailPattern PolicyRoute = Seq (LitNoCase ''Policy'') Eol"
| "tailPattern v = Seq (LitNoCase ''Controller'') Eol"

fun collectionSingularName :: "variant \<Rightarrow> string" where
  "collectionSingularName BaseRoute = []"
| "collectionSingularName TerminalRoute = ''controller''"
| "collectionSingularName PolicyRoute = ''policy''"

fun collectionPluralName :: "variant \<Rightarrow> string" where
  "collectionPluralName BaseRoute = []"
| "collectionPluralName TerminalRoute = ''controllers''"
| "collectionPluralName PolicyRoute = ''policies''"

text \<open>
  A target is a string, a function, or a descriptor object whose properties \<open>module\<close>,
  \<open>controller\<close>, \<open>policy\<close> and \<open>method\<close> hold strings when they are there
  (\<open>HitchyRouteTargetDescriptor\<close>), and whose \<open>args\<close> is any value; every other value is
  \<open>TargetOther\<close>. A missing property and an empty string are both falsy. \<open>td_args\<close> is
  there when the descriptor has a property \<open>args\<close> of its own; the descriptor has no
  property \<open>hasOwnProperty\<close> of its own.
\<close>

record target_descriptor =
  td_module :: "string option"
  td_controller :: "string option"
  td_policy :: "string option"
  td_method :: "string option"
  td_args :: "jsval option"

datatype target =
    TargetString string
  | TargetFunction nat
  | TargetDescriptor target_descriptor
  | TargetOther jsval

text \<open>
  The registry \<open>_api.runtime\<close>: its collections by property name, a collection by the
  names of its own properties, and an implementation by what reading a property of it
  yields (own or inherited); a name it does not answer reads as \<open>undefined\<close>.
  \<open>NoApi\<close> is every \<open>_api\<close> the first check of \<open>parseTarget\<close> refuses.
\<close>

type_synonym implementation = "(string \<times> jsval) list"
type_synonym collection = "(string \<times> implementation) list"
datatype api = NoApi | Api "(string \<times> collection) list"

definition readProperty :: "implementation \<Rightarrow> string \<Rightarrow> jsval" where
  "readProperty impl k = (case map_of impl k of None \<Rightarrow> JUndefined | Some v \<Rightarrow> v)"

fun isFunction :: "jsval \<Rightarrow> bool" where
  "isFunction (JFun f) = True"
| "isFunction v = False"

text \<open>The target regular expression \<^verbatim>\<open>/^(?:.+?=>\s*)?([^.:#]+)(?:(?:\.|::|#)(.+))?$/\<close>.\<close>

definition targetPattern :: re where
  "targetPattern =
     Seq Bol
    (Seq (Opt (Seq (LazyPlus Dot) (Seq (Lit CHR ''='') (Seq (Lit CHR ''>'') (Star (Chr isSpace))))))
    (Seq (Grp 1 (Plus (NoneOf ''.:#'')))
    (Seq (Opt (Seq (Alt (Lit CHR ''.'') (Alt (Seq (Lit CHR '':'') (Lit CHR '':'')) (Lit CHR ''#'')))
                   (Grp 2 (Plus Dot))))
         Eol)))"

text \<open>What the \<open>switch\<close> of \<open>parseTarget\<close> leaves: the function itself, or the object
  naming module and method, with \<open>args\<close> when it has that property.\<close>

datatype selected = Direct nat | Selector string string "jsval option"

definition nonEmpty :: "string option \<Rightarrow> bool" where
  "nonEmpty x = (case x of None \<Rightarrow> False | Some s \<Rightarrow> s \<noteq> [])"

definition orElse :: "string option \<Rightarrow> string option \<Rightarrow> string option" where
  "orElse x y = (if nonEmpty x then x else y)"

fun selectTarget :: "target \<Rightarrow> error + selected" where
  "selectTarget (TargetString t) =
     (case exec targetPattern (trim t) of
        None \<Rightarrow> Inl (TypeError ''invalid routing target selector %s'')
      | Some c \<Rightarrow>
          (case c 1 of
             None \<Rightarrow> Inl (RuntimeTypeError ''cannot read properties of undefined'')
           | Some m \<Rightarrow> Inr (Selector m (if nonEmpty (c 2) then the (c 2) else ''index'') None)))"
| "selectTarget (TargetFunction f) = Inr (Direct f)"
| "selectTarget (TargetDescriptor td) =
     (if (nonEmpty (td_module td) \<or> nonEmpty (td_controller td) \<or> nonEmpty (td_policy td))
         \<and> nonEmpty (td_method td)
      then (if \<not> nonEmpty (td_module td)
            then Inr (Selector (the (orElse (td_controller td) (td_policy td))) (the (td_method td)) (td_args td))
            else Inr (Selector (the (td_module td)) (the (td_method td)) (td_args td)))
      else Inl (TypeError ''invalid routing target descriptor %s''))"
| "selectTarget (TargetOther v) = Inl (TypeError ''invalid routing target descriptor %s'')"

record compiled_target =
  ct_handler :: jsval
  ct_args :: "jsval list"
  ct_warning :: jsval

text \<open>\<open>kebabToPascal\<close> and \<open>camelToPascal\<close> come from the module \<open>utility/case\<close>, which
  is not among the sources: they are parameters.\<close>

definition resolveTarget ::
  "variant \<Rightarrow> (string \<Rightarrow> string) \<Rightarrow> (string \<Rightarrow> string) \<Rightarrow> (string \<times> collection) list
     \<Rightarrow> string \<Rightarrow> string \<Rightarrow> jsval option \<Rightarrow> error + compiled_target" where
  "resolveTarget v kebabToPascal camelToPascal runtime module0 method args =
     (let module = replaceFirst (tailPattern v) [] module0
      in case map_of runtime (collectionPluralName v) of
           None \<Rightarrow> Inl (RuntimeTypeError ''cannot read properties of undefined'')
         | Some implementations \<Rightarrow>
             (case find (\<lambda>n. map_of implementations n \<noteq> None)
                        [module, kebabToPascal module, camelToPascal module] of
                Some implementName \<Rightarrow>
                  (if implementName \<noteq> [] then
                     (let handler = readProperty (the (map_of implementations implementName)) method
                      in if isFunction handler then
                           Inr \<lparr> ct_handler = handler,
                                 ct_args = (case args of
                                              Some (JArr r xs) \<Rightarrow> xs
                                            | Some a \<Rightarrow> [a]
                                            | None \<Rightarrow> []),
                                 ct_warning = JNull \<rparr>
                         else
                           Inr \<lparr> ct_handler = handler, ct_args = [],
                                 ct_warning = JStr (''invalid route to missing '' @ collectionSingularName v
                                    @ '' action '' @ module @ ''.'' @ method) \<rparr>)
                   else
                     Inr \<lparr> ct_handler = JNull, ct_args = [],
                           ct_warning = JStr (''invalid route to missing '' @ collectionSingularName v
                              @ '' '' @ module @ '' (to contain action '' @ method @ '')'') \<rparr>)
              | None \<Rightarrow>
                  Inr \<lparr> ct_handler = JNull, ct_args = [],
                        ct_warning = JStr (''invalid route to missing '' @ collectionSingularName v
                           @ '' '' @ module @ '' (to contain action '' @ method @ '')'') \<rparr>))"

definition parseTarget ::
  "variant \<Rightarrow> (string \<Rightarrow> string) \<Rightarrow> (string \<Rightarrow> string) \<Rightarrow> target \<Rightarrow> api
     \<Rightarrow> error + compiled_target" where
  "parseTarget v kebabToPascal camelToPascal tgt a =
     (case a of
        NoApi \<Rightarrow> Inl (TypeError ''invalid type of API'')
      | Api runtime \<Rightarrow>
          (case selectTarget tgt of
             Inl e \<Rightarrow> Inl e
           | Inr (Direct f) \<Rightarrow> Inr \<lparr> ct_handler = JFun f, ct_args = [], ct_warning = JUndefined \<rparr>
           | Inr (Selector module method args) \<Rightarrow>
               resolveTarget v kebabToPascal camelToPascal runtime module method args))"

section \<open>Routes\<close>

record route =
  r_source :: jsval
  r_target :: target
  r_method :: string
  r_path :: string
  r_prefix :: string
  r_pattern :: string
  r_parameters :: "parameter list"
  r_compile :: renderer
  r_handler :: jsval
  r_args :: "jsval list"
  r_warning :: jsval
  r_isValid :: bool

text \<open>\<open>parseTarget\<close> writes the module name without its tail back into a descriptor that
  came with a \<open>module\<close> property; the route keeps a reference to that object.\<close>

definition targetAfterParse :: "variant \<Rightarrow> target \<Rightarrow> target" where
  "targetAfterParse v tgt =
     (case tgt of
        TargetDescriptor td \<Rightarrow>
          (if nonEmpty (td_module td) \<and> nonEmpty (td_method td)
           then TargetDescriptor (td \<lparr> td_module := Some (replaceFirst (tailPattern v) [] (the (td_module td))) \<rparr>)
           else tgt)
      | _ \<Rightarrow> tgt)"

text \<open>The constructor of \<open>Route\<close>, with \<open>_isValid\<close> at its end.\<close>

definition newRoute ::
  "variant \<Rightarrow> caller \<Rightarrow> parser \<Rightarrow> compiler \<Rightarrow> (string \<Rightarrow> string) \<Rightarrow> (string \<Rightarrow> string)
     \<Rightarrow> jsval \<Rightarrow> target \<Rightarrow> api \<Rightarrow> bool \<Rightarrow> error + route" where
  "newRoute v call Parser Compiler kebabToPascal camelToPascal source tgt a isMatchingPrefix =
     (case parseSource call Parser Compiler source isMatchingPrefix of
        Inl e \<Rightarrow> Inl e
      | Inr compiledSource \<Rightarrow>
          (case parseTarget v kebabToPascal camelToPascal tgt a of
             Inl e \<Rightarrow> Inl e
           | Inr compiledTarget \<Rightarrow>
               Inr \<lparr> r_source = source,
                     r_target = targetAfterParse v tgt,
                     r_method = cs_method compiledSource,
                     r_path = cs_definition compiledSource,
                     r_prefix = cs_prefix compiledSource,
                     r_pattern = cs_pattern compiledSource,
                     r_parameters = cs_parameters compiledSource,
                     r_compile = cs_render compiledSource,
                     r_handler = ct_handler compiledTarget,
                     r_args = ct_args compiledTarget,
                     r_warning = (if truthy (ct_warning compiledTarget) then ct_warning compiledTarget else JNull),
                     r_isValid = isFunction (ct_handler compiledTarget) \<rparr>))"

definition newTerminalRoute ::
  "caller \<Rightarrow> parser \<Rightarrow> compiler \<Rightarrow> (string \<Rightarrow> string) \<Rightarrow> (string \<Rightarrow> string)
     \<Rightarrow> jsval \<Rightarrow> target \<Rightarrow> api \<Rightarrow> error + route" where
  "newTerminalRoute call Parser Compiler kebabToPascal camelToPascal source tgt a =
     newRoute TerminalRoute call Parser Compiler kebabToPascal camelToPascal source tgt a False"

definition newPolicyRoute ::
  "caller \<Rightarrow> parser \<Rightarrow> compiler \<Rightarrow> (string \<Rightarrow> string) \<Rightarrow> (string \<Rightarrow> string)
     \<Rightarrow> jsval \<Rightarrow> target \<Rightarrow> api \<Rightarrow> error + route" where
  "newPolicyRoute call Parser Compiler kebabToPascal camelToPascal source tgt a =
     newRoute PolicyRoute call Parser Compiler kebabToPascal camelToPascal source tgt a True"

section \<open>Example paths\<close>





















text \<open>\<open>new Array( count )\<close> throws a RangeError unless \<open>count\<close> is an integer from 0 to
  \<open>2 ^ 32 - 1\<close>.\<close>

definition maxArrayLength :: int where
  "maxArrayLength = 4294967295"


text \<open>The number of examples the documentation gives per kind of parameter.\<close>

definition cardinality :: "parameter \<Rightarrow> nat" where
  "cardinality p =
     (if p_modifier p = ''?'' then 2
      else if p_modifier p = ''+'' then 3
      else if p_modifier p = ''*'' then 4
      else 1)"

section \<open>Covered prefixes\<close>

text \<open>
  \<open>Route.selectProbablyCoveredPrefixes\<close>. The regular expression comes from \<open>Parser\<close> as
  source text; the code cuts a final \<open>$\<close> with \<^verbatim>\<open>/\$$/\<close> and builds a new
  \<open>RegExp\<close> from the text. The constructor \<open>RegExp\<close> and its \<open>exec\<close> are a parameter, since
  the text is not known here: \<open>RegExpNew text\<close> throws or yields the function that maps a
  string to \<open>match[0]\<close>, if there is a match.
\<close>

definition MATCH_PARTIAL :: nat where
  "MATCH_PARTIAL = 1"

definition MATCH_FULL :: nat where
  "MATCH_FULL = 2"

definition finalDollar :: re where
  "finalDollar = Seq (Lit CHR ''$'') Eol"

type_synonym regexp_new = "string \<Rightarrow> error + (string \<Rightarrow> string option)"

fun invalidOption :: "jsval \<Rightarrow> bool" where
  "invalidOption (JStr s) = (length (trim s) < 1)"
| "invalidOption v = True"

fun stringOfOption :: "jsval \<Rightarrow> string" where
  "stringOfOption (JStr s) = s"
| "stringOfOption v = []"

fun coverLoop :: "(string \<Rightarrow> string option) \<Rightarrow> string list \<Rightarrow> (string \<rightharpoonup> nat) \<Rightarrow> (string \<rightharpoonup> nat)" where
  "coverLoop myPattern [] covered = covered"
| "coverLoop myPattern (optionPrefix # rest) covered =
     (case myPattern optionPrefix of
        None \<Rightarrow> coverLoop myPattern rest covered
      | Some m \<Rightarrow>
          coverLoop myPattern rest
            (assign covered optionPrefix (if m = optionPrefix then MATCH_FULL else MATCH_PARTIAL)))"

definition selectProbablyCoveredPrefixes ::
  "parser \<Rightarrow> regexp_new \<Rightarrow> route \<Rightarrow> jsval \<Rightarrow> error + (string \<rightharpoonup> nat)" where
  "selectProbablyCoveredPrefixes Parser RegExpNew r opts =
     (case opts of
        JArr ref xs \<Rightarrow>
          (if list_ex invalidOption xs then Inl (TypeError ''invalid set of options to filter'')
           else
             (case Parser (r_path r) \<lparr> sensitive = True, end_opt = None, strict_opt = Some False \<rparr> of
                Inl e \<Rightarrow> Inl e
              | Inr (src, dummy) \<Rightarrow>
                  (case RegExpNew (replaceFirst finalDollar [] src) of
                     Inl e \<Rightarrow> Inl e
                   | Inr myPattern \<Rightarrow> Inr (coverLoop myPattern (map stringOfOption xs) Map.empty))))
      | _ \<Rightarrow> Inl (TypeError ''invalid set of options to filter''))"

section \<open>Normalizing routing definitions\<close>

text \<open>
  A normalized set of routes is a \<open>Map\<close>, kept as the list of its entries in insertion
  order. Its keys are compared as \<open>Map\<close> does (SameValueZero): primitive values by value,
  functions, arrays, objects and maps by reference. A value of the map is a target as it
  was given, or an array the normalizer has made itself.
\<close>

datatype mval = Given jsval | Collected "mval list"

type_synonym rmap = "(jsval \<times> mval) list"

fun sameValueZero :: "jsval \<Rightarrow> jsval \<Rightarrow> bool" where
  "sameValueZero JUndefined JUndefined = True"
| "sameValueZero JNull JNull = True"
| "sameValueZero (JBool a) (JBool b) = (a = b)"
| "sameValueZero (JNum a) (JNum b) = (a = b)"
| "sameValueZero (JStr a) (JStr b) = (a = b)"
| "sameValueZero (JFun a) (JFun b) = (a = b)"
| "sameValueZero (JArr a xs) (JArr b ys) = (a = b)"
| "sameValueZero (JObj a xs) (JObj b ys) = (a = b)"
| "sameValueZero (JMap a xs) (JMap b ys) = (a = b)"
| "sameValueZero x y = False"

fun mapGet :: "rmap \<Rightarrow> jsval \<Rightarrow> mval option" where
  "mapGet [] k = None"
| "mapGet ((k', v) # rest) k = (if sameValueZero k' k then Some v else mapGet rest k)"

fun mapSet :: "rmap \<Rightarrow> jsval \<Rightarrow> mval \<Rightarrow> rmap" where
  "mapSet [] k v = [(k, v)]"
| "mapSet ((k', v') # rest) k v =
     (if sameValueZero k' k then (k', v) # rest else (k', v') # mapSet rest k v)"

fun isArray :: "jsval \<Rightarrow> bool" where
  "isArray (JArr r xs) = True"
| "isArray v = False"

text \<open>\<open>existing.push( target )\<close>: it appends to an array in place, and is no function on
  a value that is no array.\<close>

fun push :: "mval \<Rightarrow> jsval \<Rightarrow> error + mval" where
  "push (Collected xs) tgt = Inr (Collected (xs @ [Given tgt]))"
| "push (Given (JArr r xs)) tgt = Inr (Given (JArr r (xs @ [tgt])))"
| "push (Given v) tgt = Inl (RuntimeTypeError ''existing.push is not a function'')"

text \<open>One round of the loop over an array of routes.\<close>

definition addRoute :: "caller \<Rightarrow> rmap \<Rightarrow> jsval \<Rightarrow> error + rmap" where
  "addRoute call mapping rt =
     (case (case rt of
              JArr r ys \<Rightarrow>
                (if length ys = 2 then Inr (ys ! 0, ys ! 1)
                 else Inl (TypeError ''invalid array-based definition of a route''))
            | _ \<Rightarrow>
                (case preparseSource call rt of
                   Inl e \<Rightarrow> Inl e
                 | Inr src \<Rightarrow> Inr (JStr (ps_type src @ '' '' @ ps_url src), rt))) of
        Inl e \<Rightarrow> Inl e
      | Inr (source, tgt) \<Rightarrow>
          (case mapGet mapping source of
             Some existing \<Rightarrow>
               (if isArray source then
                  (case push existing tgt of
                     Inl e \<Rightarrow> Inl e
                   | Inr pushed \<Rightarrow> Inr (mapSet mapping source pushed))
                else Inr (mapSet mapping source (Collected [existing, Given tgt])))
           | None \<Rightarrow> Inr (mapSet mapping source (Given tgt))))"

fun addRoutes :: "caller \<Rightarrow> rmap \<Rightarrow> jsval list \<Rightarrow> error + rmap" where
  "addRoutes call mapping [] = Inr mapping"
| "addRoutes call mapping (rt # rest) =
     (case addRoute call mapping rt of Inl e \<Rightarrow> Inl e | Inr mapping1 \<Rightarrow> addRoutes call mapping1 rest)"

text \<open>The loop over the properties of an object of routes: a name is taken when
  \<open>rawSetOfRoutes.hasOwnProperty( name )\<close> says so.\<close>

fun addProperties :: "caller \<Rightarrow> jsval \<Rightarrow> rmap \<Rightarrow> (string \<times> jsval) list \<Rightarrow> error + rmap" where
  "addProperties call raw mapping [] = Inr mapping"
| "addProperties call raw mapping ((name, v) # rest) =
     (case hasOwnProperty call raw name of
        Inl e \<Rightarrow> Inl e
      | Inr own \<Rightarrow>
          (if own then
             (case preparseSource call (JStr name) of
                Inl e \<Rightarrow> Inl e
              | Inr src \<Rightarrow>
                  addProperties call raw
                    (mapSet mapping
                       (JStr (ps_type src @ '' '' @ (if ps_exact src then ''='' else [])
                                @ (if ps_prefix src then ''~'' else []) @ ps_url src))
                       (Given v))
                    rest)
           else addProperties call raw mapping rest))"

fun normalizeSet :: "caller \<Rightarrow> jsval \<Rightarrow> error + rmap" where
  "normalizeSet call (JMap r kvs) = Inr (map (\<lambda>(k, v). (k, Given v)) kvs)"
| "normalizeSet call (JArr r xs) = addRoutes call [] xs"
| "normalizeSet call (JObj r ps) = addProperties call (JObj r ps) [] ps"
| "normalizeSet call v =
     (if \<not> truthy v then Inr [] else Inl (TypeError ''invalid list of raw routing definitions''))"

text \<open>\<open>_normalizeDefinition\<close>. The loop over the names of the raw definition looks at
  five names at most (\<open>toCheck\<close>), and only at a name for which
  \<open>rawDefinition.hasOwnProperty( name )\<close> holds; \<open>stageSwitch\<close> is its \<open>switch\<close>.\<close>

record stage_check =
  explicit :: bool
  foundExplicit :: bool
  unexpectedStages :: bool

definition stageSwitch :: "bool \<Rightarrow> string \<Rightarrow> stage_check \<Rightarrow> stage_check" where
  "stageSwitch supportAllStages n st =
     (if n = ''early'' \<or> n = ''late''
      then st \<lparr> foundExplicit := True,
                unexpectedStages := (if supportAllStages then unexpectedStages st else True) \<rparr>
      else if n = ''before'' \<or> n = ''after''
      then st \<lparr> foundExplicit := True \<rparr>
      else st \<lparr> explicit := False \<rparr>)"

fun checkStages ::
  "caller \<Rightarrow> bool \<Rightarrow> jsval \<Rightarrow> string list \<Rightarrow> nat \<Rightarrow> stage_check \<Rightarrow> error + stage_check" where
  "checkStages call supportAllStages raw [] toCheck st = Inr st"
| "checkStages call supportAllStages raw (n # rest) toCheck st =
     (case hasOwnProperty call raw n of
        Inl e \<Rightarrow> Inl e
      | Inr own \<Rightarrow>
          (if own then
             (if toCheck < 1 then Inr st
              else checkStages call supportAllStages raw rest (toCheck - 1)
                     (stageSwitch supportAllStages n st))
           else checkStages call supportAllStages raw rest toCheck st))"

datatype normalized = Staged "(string \<times> rmap) list" | Plain rmap

fun fillStages :: "caller \<Rightarrow> jsval \<Rightarrow> string list \<Rightarrow> error + (string \<times> rmap) list" where
  "fillStages call raw [] = Inr []"
| "fillStages call raw (n # rest) =
     (case hasOwnProperty call raw n of
        Inl e \<Rightarrow> Inl e
      | Inr own \<Rightarrow>
          (case (if own then normalizeSet call (getProp raw n) else Inr []) of
             Inl e \<Rightarrow> Inl e
           | Inr m \<Rightarrow>
               (case fillStages call raw rest of
                  Inl e \<Rightarrow> Inl e
                | Inr filled \<Rightarrow> Inr ((n, m) # filled))))"

fun ownNames :: "jsval \<Rightarrow> string list" where
  "ownNames (JObj r ps) = map fst ps"
| "ownNames v = []"

text \<open>The \<open>return\<close> at the end of \<open>_normalizeDefinition\<close>, with \<open>rawDefinition || {}\<close>.\<close>

definition implicitStage :: "caller \<Rightarrow> bool \<Rightarrow> bool \<Rightarrow> jsval \<Rightarrow> error + normalized" where
  "implicitStage call supportAnyStage supportAllStages raw =
     (case normalizeSet call (if truthy raw then raw else JObj 0 []) of
        Inl e \<Rightarrow> Inl e
      | Inr m \<Rightarrow>
          Inr (if supportAnyStage then
                 (if supportAllStages
                  then Staged [(''early'', []), (''before'', m), (''after'', []), (''late'', [])]
                  else Staged [(''before'', m), (''after'', [])])
               else Plain m))"

fun isObjectType :: "jsval \<Rightarrow> bool" where
  "isObjectType JNull = True"
| "isObjectType (JArr r xs) = True"
| "isObjectType (JObj r ps) = True"
| "isObjectType (JMap r kvs) = True"
| "isObjectType v = False"

definition normalizeDefinition :: "caller \<Rightarrow> bool \<Rightarrow> bool \<Rightarrow> jsval \<Rightarrow> error + normalized" where
  "normalizeDefinition call supportAnyStage supportAllStages rawDefinition =
     (if isObjectType rawDefinition then
        (if truthy rawDefinition \<and> \<not> isArray rawDefinition then
           (let st0 = \<lparr> explicit = supportAnyStage, foundExplicit = False, unexpectedStages = False \<rparr>
            in case (if explicit st0
                     then checkStages call supportAllStages rawDefinition (ownNames rawDefinition) 5 st0
                     else Inr st0) of
                 Inl e \<Rightarrow> Inl e
               | Inr st \<Rightarrow>
                   (if explicit st0 \<and> foundExplicit st \<and> \<not> explicit st
                    then Inl (TypeError ''invalid mix of routing definitions with and without routing slot selection'')
                    else if \<not> explicit st
                    then implicitStage call supportAnyStage supportAllStages rawDefinition
                    else if unexpectedStages st
                    then Inl (TypeError ''got one or more unexpected stages in route definition'')
                    else (case fillStages call rawDefinition
                                 (if supportAllStages then [''early'', ''before'', ''after'', ''late'']
                                  else [''before'', ''after'']) of
                            Inl e \<Rightarrow> Inl e
                          | Inr stages \<Rightarrow> Inr (Staged stages))))
         else implicitStage call supportAnyStage supportAllStages rawDefinition)
      else if rawDefinition = JUndefined
      then implicitStage call supportAnyStage supportAllStages rawDefinition
      else Inl (TypeError ''invalid route definition: %s''))"

definition normalizePlugin :: "caller \<Rightarrow> jsval \<Rightarrow> error + normalized" where
  "normalizePlugin call = normalizeDefinition call True False"

definition normalizeCustom :: "caller \<Rightarrow> jsval \<Rightarrow> error + normalized" where
  "normalizeCustom call = normalizeDefinition call True True"

definition normalizeBlueprint :: "caller \<Rightarrow> jsval \<Rightarrow> error + normalized" where
  "normalizeBlueprint call = normalizeDefinition call False False"


text \<open>The prefix of a path in the words of the documentation: the longest run of
  characters before the first of \<open>* + ? ( : [ {\<close>, without a final slash, and \<open>/\<close> when
  nothing is left. \<open>afterRun\<close> is what follows the run.\<close>

definition literalRun :: "string \<Rightarrow> string" where
  "literalRun url = takeWhile (\<lambda>ch. ch \<notin> set ''*+?(:[{'') url"

definition afterRun :: "string \<Rightarrow> string" where
  "afterRun url = dropWhile (\<lambda>ch. ch \<notin> set ''*+?(:[{'') url"

definition tidyPrefix :: "string \<Rightarrow> string" where
  "tidyPrefix p =
     (let p1 = (if p \<noteq> [] \<and> last p = CHR ''/'' then butlast p else p)
      in if p1 = [] then ''/'' else p1)"

section \<open>Auxiliary notions of the proofs\<close>

text \<open>The capture groups a regular expression can set.\<close>

fun groupsOf :: "re \<Rightarrow> nat set" where
  "groupsOf (Seq a b) = groupsOf a \<union> groupsOf b"
| "groupsOf (Alt a b) = groupsOf a \<union> groupsOf b"
| "groupsOf (Star a) = groupsOf a"
| "groupsOf (LazyStar a) = groupsOf a"
| "groupsOf (Grp n a) = insert n (groupsOf a)"
| "groupsOf r = {}"

text \<open>The texts the first capture group of the source pattern can hold.\<close>

definition methodChars :: "string \<Rightarrow> bool" where
  "methodChars w = (w \<noteq> [] \<and> (w = ''*'' \<or> (\<forall>x \<in> set w. x = CHR ''-'' \<or> isLetter x)))"

text \<open>The second half of the prefix pattern, and what it finds at the \<open>k\<close>-th position
  of a path, the first capture being the path up to there.\<close>

definition prefixTail :: re where
  "prefixTail = Grp 2 (Alt (Seq Dot (OneOf ''*+?'')) (Alt (OneOf ''(:[{'') Eol))"

definition tailAt :: "string \<Rightarrow> nat \<Rightarrow> mstate list" where
  "tailAt url k = ms prefixTail (k, drop k url, [1 \<mapsto> take k url])"

text \<open>Stand-ins for the pattern compiler of path-to-regexp at concrete inputs: the
  text of the regular expression is taken to be the path, followed by \<open>$\<close> unless the
  option \<open>end\<close> is false, and rendering yields the path whatever the values.\<close>

definition sampleParser :: parser where
  "sampleParser url opts = Inr (url @ (if end_opt opts = Some False then [] else ''$''), [])"

definition sampleCompiler :: compiler where
  "sampleCompiler url = Inr (\<lambda>vs. Inr url)"

text \<open>The names of the four stages.\<close>

definition stageName :: "string \<Rightarrow> bool" where
  "stageName n = (n = ''early'' \<or> n = ''late'' \<or> n = ''before'' \<or> n = ''after'')"

section \<open>Concrete inputs\<close>

text \<open>The path \<open>/test\<close>, a backslash and \<open>?\<close>: a question mark escaped for the
  pattern compiler.\<close>

definition escapedModifierPath :: string where
  "escapedModifierPath = ''/test'' @ [CHR 0x5C] @ ''?''"

text \<open>Stand-ins for the constructor \<open>RegExp\<close>: one reads the text as a literal that has
  to lead the string, one yields a pattern that matches the empty leading portion of
  every string, as the pattern of the path \<open>/:major?\<close> does once its final \<open>$\<close> is
  cut.\<close>

definition literalRegExp :: regexp_new where
  "literalRegExp text = Inr (\<lambda>s. if take (length text) s = text then Some text else None)"

definition leadingEmptyRegExp :: regexp_new where
  "leadingEmptyRegExp text = Inr (\<lambda>s. Some [])"

text \<open>A compiled route for the path \<open>/:major?\<close>.\<close>

definition sampleRoute :: route where
  "sampleRoute =
     \<lparr> r_source = JStr ''/:major?'', r_target = TargetFunction 0, r_method = ''ALL'',
       r_path = ''/:major?'', r_prefix = ''/'', r_pattern = ''/:major?'',
       r_parameters = [\<lparr> p_name = Named ''major'', p_prefix = ''/'', p_suffix = [],
                          p_pattern = ''[^/#?]+?'', p_modifier = ''?'' \<rparr>],
       r_compile = (\<lambda>vs. Inr ''/''), r_handler = JFun 0, r_args = [], r_warning = JNull,
       r_isValid = True \<rparr>"

text \<open>The registry of the tests, with a property of the controller that is no function,
  and a descriptor that names a method the controller does not have.\<close>

definition sampleRegistry :: api where
  "sampleRegistry =
     Api [(''controllers'', [(''Custom'', [(''myHandler'', JFun 1), (''version'', JStr ''1.0'')])]),
          (''policies'', [(''Filter'', [(''myImplementation'', JFun 2)])])]"

definition missingMethodTarget :: target where
  "missingMethodTarget =
     TargetDescriptor \<lparr> td_module = None, td_controller = Some ''Custom'', td_policy = None,
                        td_method = Some ''missing'', td_args = None \<rparr>"

text \<open>A render function that lists the values of the named parameters as segments, and
  a compiled route with an optional and a repeated parameter.\<close>

definition segmentsRenderer :: "string list \<Rightarrow> renderer" where
  "segmentsRenderer names vals =
     Inr (''/static'' @ concat (map (\<lambda>n. case pv_own vals n of
                                   None \<Rightarrow> []
                                 | Some (VStr s) \<Rightarrow> ''/'' @ s
                                 | Some (VArr xs) \<Rightarrow> concat (map (\<lambda>x. ''/'' @ x) xs)) names))"

definition optionalThenRepeated :: route where
  "optionalThenRepeated =
     \<lparr> r_source = JStr ''/static/:param?/:info+'', r_target = TargetFunction 0, r_method = ''ALL'',
       r_path = ''/static/:param?/:info+'', r_prefix = ''/static'', r_pattern = ''/static/:param?/:info+'',
       r_parameters = [\<lparr> p_name = Named ''param'', p_prefix = ''/'', p_suffix = [],
                          p_pattern = ''[^/#?]+?'', p_modifier = ''?'' \<rparr>,
                       \<lparr> p_name = Named ''info'', p_prefix = ''/'', p_suffix = [],
                          p_pattern = ''[^/#?]+?'', p_modifier = ''+'' \<rparr>],
       r_compile = segmentsRenderer [''param'', ''info''], r_handler = JFun 0, r_args = [],
       r_warning = JNull, r_isValid = True \<rparr>"





text \<open>Raw routing definitions: a stage beside a route, a stage that only an
  application may use, and a stage after five routes.\<close>

definition mixedDefinition :: jsval where
  "mixedDefinition = JObj 0 [(''before'', JObj 1 [(''/a'', JStr ''A::x'')]), (''customKey'', JObj 2 [])]"

definition earlyDefinition :: jsval where
  "earlyDefinition = JObj 0 [(''early'', JObj 1 [(''/a'', JStr ''A::x'')])]"

definition lateMixDefinition :: jsval where
  "lateMixDefinition =
     JObj 0 [(''/a'', JStr ''A''), (''/b'', JStr ''B''), (''/c'', JStr ''C''), (''/d'', JStr ''D''),
             (''/e'', JStr ''E''), (''before'', JObj 1 [])]"

text \<open>Functions that return nothing, as a handler does that only writes its response:
  every call yields \<open>undefined\<close>.\<close>

definition returnsUndefined :: caller where
  "returnsUndefined f this args = Inr JUndefined"

text \<open>A raw routing definition with the stage \<open>before\<close> and a route handler under the key
  \<open>hasOwnProperty\<close>.\<close>

definition shadowedDefinition :: jsval where
  "shadowedDefinition =
     JObj 0 [(''before'', JObj 1 [(''/a'', JStr ''A::x'')]), (''hasOwnProperty'', JFun 7)]"

section \<open>Facts about the matcher\<close>

declare ms.simps(7,8) [simp del]

lemma ms_suffix:
  "(j, t, d) \<in> set (ms r (i, s, c)) \<Longrightarrow> \<exists>w. s = w @ t \<and> j = i + length w"
proof (induction r "(i, s, c)" arbitrary: i s c j t d rule: ms.induct)
  case (1 P i s c)
  then show ?case by (auto split: list.splits if_splits)
next
  case (5 a b i s c)
  from 5(3) obtain j1 t1 d1 where m1: "(j1, t1, d1) \<in> set (ms a (i, s, c))"
    and m2: "(j, t, d) \<in> set (ms b (j1, t1, d1))" by auto
  from 5(1)[OF m1] obtain w1 where w1: "s = w1 @ t1" "j1 = i + length w1" by blast
  from 5(2)[OF m1 m2] obtain w2 where w2: "t1 = w2 @ t" "j = j1 + length w2" by blast
  from w1 w2 show ?case by auto
next
  case (7 a i s c)
  from 7(3) have "(j, t, d) \<in> set (concat (map (\<lambda>(j, t, d). if length t < length s then ms (Star a) (j, t, d) else [])
                 (ms a (i, s, c))) @ [(i, s, c)])" by (subst (asm) ms.simps(7)) 
  then consider "(j, t, d) = (i, s, c)" |
    j1 t1 d1 where "(j1, t1, d1) \<in> set (ms a (i, s, c))" "length t1 < length s" "(j, t, d) \<in> set (ms (Star a) (j1, t1, d1))"
    by (auto split: if_splits)
  then show ?case
  proof cases
    case 1 then show ?thesis by auto
  next
    case 2
    from 7(1)[OF 2(1)] obtain w1 where w1: "s = w1 @ t1" "j1 = i + length w1" by blast
    from 7(2)[OF 2(1) refl refl 2(2) 2(3)] obtain w2 where w2: "t1 = w2 @ t" "j = j1 + length w2" by blast
    from w1 w2 show ?thesis by auto
  qed
next
  case (8 a i s c)
  from 8(3) have "(j, t, d) \<in> set ((i, s, c) # concat (map (\<lambda>(j, t, d). if length t < length s then ms (LazyStar a) (j, t, d) else [])
                 (ms a (i, s, c))))" by (subst (asm) ms.simps(8)) 
  then consider "(j, t, d) = (i, s, c)" |
    j1 t1 d1 where "(j1, t1, d1) \<in> set (ms a (i, s, c))" "length t1 < length s" "(j, t, d) \<in> set (ms (LazyStar a) (j1, t1, d1))"
    by (auto split: if_splits)
  then show ?case
  proof cases
    case 1 then show ?thesis by auto
  next
    case 2
    from 8(1)[OF 2(1)] obtain w1 where w1: "s = w1 @ t1" "j1 = i + length w1" by blast
    from 8(2)[OF 2(1) refl refl 2(2) 2(3)] obtain w2 where w2: "t1 = w2 @ t" "j = j1 + length w2" by blast
    from w1 w2 show ?thesis by auto
  qed
qed (auto split: if_splits)


lemma ms_frame:
  "(j, t, d) \<in> set (ms r (i, s, c)) \<Longrightarrow> n \<notin> groupsOf r \<Longrightarrow> d n = c n"
proof (induction r "(i, s, c)" arbitrary: i s c j t d rule: ms.induct)
  case (1 P i s c)
  then show ?case by (auto split: list.splits if_splits)
next
  case (5 a b i s c)
  from 5(3) obtain j1 t1 d1 where m1: "(j1, t1, d1) \<in> set (ms a (i, s, c))"
    and m2: "(j, t, d) \<in> set (ms b (j1, t1, d1))" by auto
  from 5(1)[OF m1] 5(4) have "d1 n = c n" by simp
  moreover from 5(2)[OF m1 m2] 5(4) have "d n = d1 n" by simp
  ultimately show ?case by simp
next
  case (7 a i s c)
  from 7(3) have "(j, t, d) \<in> set (concat (map (\<lambda>(j, t, d). if length t < length s then ms (Star a) (j, t, d) else [])
                 (ms a (i, s, c))) @ [(i, s, c)])" by (subst (asm) ms.simps(7)) 
  then consider "(j, t, d) = (i, s, c)" |
    j1 t1 d1 where "(j1, t1, d1) \<in> set (ms a (i, s, c))" "length t1 < length s" "(j, t, d) \<in> set (ms (Star a) (j1, t1, d1))"
    by (auto split: if_splits)
  then show ?case
  proof cases
    case 1 then show ?thesis by auto
  next
    case 2
    from 7(1)[OF 2(1)] 7(4) have "d1 n = c n" by simp
    moreover from 7(2)[OF 2(1) refl refl 2(2) 2(3)] 7(4) have "d n = d1 n" by simp
    ultimately show ?thesis by simp
  qed
next
  case (8 a i s c)
  from 8(3) have "(j, t, d) \<in> set ((i, s, c) # concat (map (\<lambda>(j, t, d). if length t < length s then ms (LazyStar a) (j, t, d) else [])
                 (ms a (i, s, c))))" by (subst (asm) ms.simps(8)) 
  then consider "(j, t, d) = (i, s, c)" |
    j1 t1 d1 where "(j1, t1, d1) \<in> set (ms a (i, s, c))" "length t1 < length s" "(j, t, d) \<in> set (ms (LazyStar a) (j1, t1, d1))"
    by (auto split: if_splits)
  then show ?case
  proof cases
    case 1 then show ?thesis by auto
  next
    case 2
    from 8(1)[OF 2(1)] 8(4) have "d1 n = c n" by simp
    moreover from 8(2)[OF 2(1) refl refl 2(2) 2(3)] 8(4) have "d n = d1 n" by simp
    ultimately show ?thesis by simp
  qed
qed (auto split: if_splits)

lemma in_ms_Chr:
  "(j, t, d) \<in> set (ms (Chr P) (i, s, c)) \<longleftrightarrow> (\<exists>x. s = x # t \<and> P x \<and> j = Suc i \<and> d = c)"
  by (auto split: list.splits)

lemma in_ms_Seq:
  "x \<in> set (ms (Seq a b) (i, s, c)) \<longleftrightarrow> (\<exists>y \<in> set (ms a (i, s, c)). x \<in> set (ms b y))"
  by auto

lemma in_ms_Star_Chr:
  "(j, t, d) \<in> set (ms (Star (Chr P)) (i, s, c))
     \<Longrightarrow> \<exists>w. s = w @ t \<and> (\<forall>x \<in> set w. P x) \<and> j = i + length w \<and> d = c"
proof (induction s arbitrary: i)
  case Nil
  then show ?case by (subst (asm) ms.simps(7)) auto
next
  case (Cons x xs)
  from Cons.prems have "(j, t, d) = (i, x # xs, c) \<or> (P x \<and> (j, t, d) \<in> set (ms (Star (Chr P)) (Suc i, xs, c)))"
    by (subst (asm) ms.simps(7)) (auto split: if_splits)
  then show ?case
  proof
    assume "(j, t, d) = (i, x # xs, c)" then show ?thesis by auto
  next
    assume a: "P x \<and> (j, t, d) \<in> set (ms (Star (Chr P)) (Suc i, xs, c))"
    with Cons.IH obtain w where "xs = w @ t" "\<forall>x \<in> set w. P x" "j = Suc i + length w" "d = c" by blast
    with a show ?thesis by (intro exI[of _ "x # w"]) auto
  qed
qed

lemma in_ms_Plus_Chr:
  "(j, t, d) \<in> set (ms (Plus (Chr P)) (i, s, c))
     \<Longrightarrow> \<exists>w. w \<noteq> [] \<and> s = w @ t \<and> (\<forall>x \<in> set w. P x) \<and> j = i + length w \<and> d = c"
proof -
  assume "(j, t, d) \<in> set (ms (Plus (Chr P)) (i, s, c))"
  then obtain x xs where s: "s = x # xs" "P x" and m: "(j, t, d) \<in> set (ms (Star (Chr P)) (Suc i, xs, c))"
    by (auto simp: Plus_def split: list.splits if_splits)
  from in_ms_Star_Chr[OF m] obtain w where "xs = w @ t" "\<forall>x \<in> set w. P x" "j = Suc i + length w" "d = c" by blast
  with s show ?thesis by (intro exI[of _ "x # w"]) auto
qed

lemma search_mem:
  "x \<in> set (search r i s) \<Longrightarrow> \<exists>k \<le> length s. x \<in> set (ms r (i + k, drop k s, Map.empty))"
proof (induction s arbitrary: i)
  case Nil then show ?case by auto
next
  case (Cons y ys)
  from Cons.prems have "x \<in> set (ms r (i, y # ys, Map.empty)) \<or> x \<in> set (search r (Suc i) ys)" by auto
  then show ?case
  proof
    assume "x \<in> set (ms r (i, y # ys, Map.empty))"
    then show ?thesis by (intro exI[of _ 0]) auto
  next
    assume "x \<in> set (search r (Suc i) ys)"
    from Cons.IH[OF this] obtain k where "k \<le> length ys" "x \<in> set (ms r (Suc i + k, drop k ys, Map.empty))" by blast
    then show ?thesis by (intro exI[of _ "Suc k"]) auto
  qed
qed

lemma exec_anchored:
  assumes "exec (Seq Bol r) s = Some c"
  shows "\<exists>j t d. (j, t, d) \<in> set (ms r (0, s, Map.empty)) \<and> c = d(0 \<mapsto> take j s)"
proof -
  from assms obtain j t rest where h: "search (Grp 0 (Seq Bol r)) 0 s = (j, t, c) # rest"
    by (auto simp: exec_def split: list.splits)
  then have "(j, t, c) \<in> set (search (Grp 0 (Seq Bol r)) 0 s)" by simp
  from search_mem[OF this] obtain k where k: "(j, t, c) \<in> set (ms (Grp 0 (Seq Bol r)) (0 + k, drop k s, Map.empty))" by blast
  then have "k = 0" by (auto split: if_splits)
  with k show ?thesis by (auto split: if_splits)
qed


lemma in_ms_Grp:
  "(j, t, d) \<in> set (ms (Grp n a) (i, s, c))
     \<longleftrightarrow> (\<exists>d'. (j, t, d') \<in> set (ms a (i, s, c)) \<and> d = d'(n \<mapsto> take (j - i) s))"
proof
  assume "(j, t, d) \<in> set (ms (Grp n a) (i, s, c))"
  then show "\<exists>d'. (j, t, d') \<in> set (ms a (i, s, c)) \<and> d = d'(n \<mapsto> take (j - i) s)"
    by auto
next
  assume "\<exists>d'. (j, t, d') \<in> set (ms a (i, s, c)) \<and> d = d'(n \<mapsto> take (j - i) s)"
  then obtain d' where "(j, t, d') \<in> set (ms a (i, s, c))" "d = d'(n \<mapsto> take (j - i) s)" by blast
  then show "(j, t, d) \<in> set (ms (Grp n a) (i, s, c))"
    by (simp add: image_iff) (rule bexI[of _ "(j, t, d')"], simp_all)
qed

lemma in_ms_Alt:
  "x \<in> set (ms (Alt a b) (i, s, c)) \<longleftrightarrow> x \<in> set (ms a (i, s, c)) \<or> x \<in> set (ms b (i, s, c))"
  by simp

lemma in_ms_Opt:
  "x \<in> set (ms (Opt a) (i, s, c)) \<longleftrightarrow> x \<in> set (ms a (i, s, c)) \<or> x = (i, s, c)"
  by (auto simp: Opt_def)

lemma in_ms_Lit:
  "(j, t, d) \<in> set (ms (Lit y) (i, s, c)) \<longleftrightarrow> (s = y # t \<and> j = Suc i \<and> d = c)"
  by (auto simp: Lit_def split: list.splits)

lemma in_ms_Eol:
  "(j, t, d) \<in> set (ms Eol (i, s, c)) \<longleftrightarrow> (s = [] \<and> t = [] \<and> j = i \<and> d = c)"
  by auto

lemma ms_frame_all:
  "(j, t, d) \<in> set (ms r (i, s, c)) \<Longrightarrow> groupsOf r = {} \<Longrightarrow> d = c"
proof
  fix n assume "(j, t, d) \<in> set (ms r (i, s, c))" "groupsOf r = {}"
  then show "d n = c n" using ms_frame[of j t d r i s c n] by simp
qed


section \<open>The method of a string source\<close>

lemma space_not_method: "isSpace x \<Longrightarrow> \<not> (x = CHR ''*'' \<or> x = CHR ''-'' \<or> isLetter x)"
  by (auto simp: isSpace_def isLetter_def isLower_def isUpper_def)

lemma methodChars_nospace: "methodChars w \<Longrightarrow> x \<in> set w \<Longrightarrow> \<not> isSpace x"
proof -
  assume a: "methodChars w" and x: "x \<in> set w"
  then consider "w = ''*''" | "\<forall>x \<in> set w. x = CHR ''-'' \<or> isLetter x"
    unfolding methodChars_def by blast
  then have "x = CHR ''*'' \<or> x = CHR ''-'' \<or> isLetter x"
  proof cases
    case 1 with x show ?thesis by simp
  next
    case 2 with x show ?thesis by blast
  qed
  with space_not_method[of x] show ?thesis by blast
qed

lemma methodChars_hd: "methodChars w \<Longrightarrow> hd w \<noteq> CHR ''/'' \<and> hd w \<noteq> CHR ''='' \<and> hd w \<noteq> CHR ''~''"
proof -
  assume a: "methodChars w"
  then consider "w = ''*''" | "w \<noteq> [] \<and> (\<forall>x \<in> set w. x = CHR ''-'' \<or> isLetter x)"
    unfolding methodChars_def by blast
  then show ?thesis
  proof cases
    case 1 then show ?thesis by simp
  next
    case 2
    then have "hd w \<in> set w" by simp
    with 2 have "hd w = CHR ''-'' \<or> isLetter (hd w)" by blast
    then show ?thesis by (auto simp: isLetter_def isLower_def isUpper_def)
  qed
qed

lemma in_method_group:
  assumes "(j, t, d) \<in> set (ms (Grp 1 (Alt (Lit CHR ''*'')
             (Seq (Chr isLetter) (Plus (Chr (\<lambda>ch. ch = CHR ''-'' \<or> isLetter ch)))))) (i, s, c))"
  shows "\<exists>w. s = w @ t \<and> methodChars w \<and> d = c(1 \<mapsto> w)"
proof -
  let ?L = "Chr (\<lambda>ch. ch = CHR ''-'' \<or> isLetter ch)"
  let ?T = "Alt (Lit CHR ''*'') (Seq (Chr isLetter) (Plus ?L))"
  from assms obtain d' where m: "(j, t, d') \<in> set (ms ?T (i, s, c))" and d: "d = d'(1 \<mapsto> take (j - i) s)"
    unfolding in_ms_Grp by blast
  from ms_suffix[OF m] obtain w where w: "s = w @ t" "j = i + length w" by blast
  have dc: "d' = c" using ms_frame_all[OF m] by (simp add: Lit_def Plus_def)
  from m have "(j, t, d') \<in> set (ms (Lit CHR ''*'') (i, s, c))
      \<or> (j, t, d') \<in> set (ms (Seq (Chr isLetter) (Plus ?L)) (i, s, c))"
    unfolding in_ms_Alt .
  then have "methodChars w"
  proof
    assume "(j, t, d') \<in> set (ms (Lit CHR ''*'') (i, s, c))"
    then have "s = CHR ''*'' # t" unfolding in_ms_Lit by simp
    with w have "w = ''*''" by simp
    then show ?thesis by (simp add: methodChars_def)
  next
    assume "(j, t, d') \<in> set (ms (Seq (Chr isLetter) (Plus ?L)) (i, s, c))"
    then obtain y where y: "y \<in> set (ms (Chr isLetter) (i, s, c))" and p0: "(j, t, d') \<in> set (ms (Plus ?L) y)"
      unfolding in_ms_Seq by blast
    obtain j1 t1 d1 where yy: "y = (j1, t1, d1)" by (cases y) auto
    from y[unfolded yy] obtain x where s: "s = x # t1" "isLetter x" unfolding in_ms_Chr by blast
    from in_ms_Plus_Chr[OF p0[unfolded yy]] obtain v where v: "t1 = v @ t" "\<forall>x \<in> set v. x = CHR ''-'' \<or> isLetter x" by blast
    from s v w have "w = x # v" by simp
    with s v show ?thesis by (auto simp: methodChars_def)
  qed
  with w d dc show ?thesis by simp
qed


lemma in_path_group:
  assumes "z \<in> set (ms (Grp 2 (Seq (Opt (OneOf ''=~'')) (Seq (Lit CHR ''/'') (LazyStar Dot)))) (i, s, c))"
  shows "take 1 s = ''/'' \<or> take 1 s = ''='' \<or> take 1 s = ''~''"
proof -
  obtain j t d where z: "z = (j, t, d)" by (cases z) auto
  from assms[unfolded z in_ms_Grp] obtain d' where
    "(j, t, d') \<in> set (ms (Seq (Opt (OneOf ''=~'')) (Seq (Lit CHR ''/'') (LazyStar Dot))) (i, s, c))" by blast
  then obtain u where u: "u \<in> set (ms (Opt (OneOf ''=~'')) (i, s, c))"
    and r: "(j, t, d') \<in> set (ms (Seq (Lit CHR ''/'') (LazyStar Dot)) u)"
    unfolding in_ms_Seq by blast
  obtain j1 t1 d1 where uu: "u = (j1, t1, d1)" by (cases u) auto
  from r[unfolded uu in_ms_Seq] obtain v where "v \<in> set (ms (Lit CHR ''/'') (j1, t1, d1))" by blast
  moreover obtain j3 t3 d3 where "v = (j3, t3, d3)" by (cases v) auto
  ultimately have t1: "t1 = CHR ''/'' # t3" by (simp add: in_ms_Lit)
  from u[unfolded in_ms_Opt] show ?thesis
  proof
    assume "u \<in> set (ms (OneOf ''=~'') (i, s, c))"
    then obtain x where "s = x # t1" "x \<in> set ''=~''"
      unfolding uu OneOf_def in_ms_Chr by blast
    then show ?thesis by auto
  next
    assume "u = (i, s, c)"
    with uu have "t1 = s" by simp
    with t1 show ?thesis by simp
  qed
qed

lemma sourcePattern_method:
  assumes "exec sourcePattern s = Some c"
  shows "(c 1 = None \<and> (take 1 s = ''/'' \<or> take 1 s = ''='' \<or> take 1 s = ''~''))
       \<or> (\<exists>w sp rest. s = w @ sp # rest \<and> isSpace sp \<and> methodChars w \<and> c 1 = Some w)"
proof -
  let ?T = "Grp 1 (Alt (Lit CHR ''*'')
                               (Seq (Chr isLetter) (Plus (Chr (\<lambda>ch. ch = CHR ''-'' \<or> isLetter ch)))))"
  let ?A = "Opt (Seq ?T (Plus (Chr isSpace)))"
  let ?B = "Grp 2 (Seq (Opt (OneOf ''=~'')) (Seq (Lit CHR ''/'') (LazyStar Dot)))"
  let ?C = "Seq (Opt (Seq (Star (Chr isSpace)) (Seq (Lit CHR ''='') (Seq (Lit CHR ''>'') (Plus Dot))))) Eol"
  have sp: "sourcePattern = Seq Bol (Seq ?A (Seq ?B ?C))" by (simp add: sourcePattern_def)
  from exec_anchored[OF assms[unfolded sp]] obtain j t d where
    m: "(j, t, d) \<in> set (ms (Seq ?A (Seq ?B ?C)) (0, s, Map.empty))" and c: "c = d(0 \<mapsto> take j s)" by blast
  from m obtain y where y: "y \<in> set (ms ?A (0, s, Map.empty))" and r: "(j, t, d) \<in> set (ms (Seq ?B ?C) y)"
    unfolding in_ms_Seq by blast
  obtain j1 t1 d1 where yy: "y = (j1, t1, d1)" by (cases y) auto
  have "1 \<notin> groupsOf (Seq ?B ?C)" by (simp add: Opt_def Plus_def Lit_def OneOf_def Dot_def)
  from ms_frame[OF r[unfolded yy] this] have d1: "d 1 = d1 1" .
  from r[unfolded yy in_ms_Seq] obtain z where "z \<in> set (ms ?B (j1, t1, d1))" by blast
  from in_path_group[OF this] have t1: "take 1 t1 = ''/'' \<or> take 1 t1 = ''='' \<or> take 1 t1 = ''~''" .
  from y[unfolded in_ms_Opt] show ?thesis
  proof
    assume "y = (0, s, Map.empty)"
    with yy have "t1 = s" "d1 = Map.empty" by simp_all
    with t1 d1 c show ?thesis by simp
  next
    assume "y \<in> set (ms (Seq ?T (Plus (Chr isSpace))) (0, s, Map.empty))"
    then obtain q where q: "q \<in> set (ms ?T (0, s, Map.empty))" and p: "y \<in> set (ms (Plus (Chr isSpace)) q)"
      unfolding in_ms_Seq by blast
    obtain j2 t2 d2 where qq: "q = (j2, t2, d2)" by (cases q) auto
    from in_method_group[OF q[unfolded qq]] obtain w where w: "s = w @ t2" "methodChars w" "d2 = Map.empty(1 \<mapsto> w)" by blast
    from in_ms_Plus_Chr[OF p[unfolded qq yy]] obtain v where v: "v \<noteq> []" "t2 = v @ t1" "\<forall>x \<in> set v. isSpace x" "d1 = d2" by blast
    from v(1) obtain x xs where vx: "v = x # xs" by (cases v) auto
    with v have "isSpace x" by simp
    moreover from w v vx have "s = w @ x # (xs @ t1)" by simp
    moreover from c d1 v w have "c 1 = Some w" by simp
    ultimately show ?thesis using w(2) by blast
  qed
qed

lemma takeWhile_token:
  assumes "methodChars w" "isSpace sp"
  shows "takeWhile (\<lambda>ch. \<not> isSpace ch) (w @ sp # rest) = w"
proof -
  have "\<forall>x \<in> set w. \<not> isSpace x" using methodChars_nospace[OF assms(1)] by blast
  then have "takeWhile (\<lambda>ch. \<not> isSpace ch) (w @ sp # rest) = w @ takeWhile (\<lambda>ch. \<not> isSpace ch) (sp # rest)"
    by (simp add: takeWhile_append2)
  with assms(2) show ?thesis by simp
qed

lemma trim_token: "methodChars w \<Longrightarrow> trim w = w"
proof -
  assume a: "methodChars w"
  then have ne: "w \<noteq> []" by (simp add: methodChars_def)
  have ns: "\<forall>x \<in> set w. \<not> isSpace x" using methodChars_nospace[OF a] by blast
  from ne ns have "dropWhile isSpace w = w" by (cases w) auto
  moreover from ne ns have "dropWhile isSpace (rev w) = rev w" by (cases "rev w") auto
  ultimately show ?thesis by (simp add: trim_def)
qed

lemma upperChar_star: "upperChar x = CHR ''*'' \<longleftrightarrow> x = CHR ''*''"
proof (cases "isLower x \<or> isLatinLower x")
  case True
  then have b: "97 \<le> (of_char x :: nat)" "(of_char x :: nat) \<le> 254"
    by (auto simp: isLower_def isLatinLower_def)
  have "(of_char (upperChar x) :: nat) = (of_char x - 32) mod 256"
    using True by (simp add: upperChar_def)
  also from b have "\<dots> = of_char x - 32" by simp
  finally have "(of_char (upperChar x) :: nat) \<noteq> 42" using b by simp
  then have "upperChar x \<noteq> CHR ''*''" by auto
  moreover from b have "x \<noteq> CHR ''*''" by auto
  ultimately show ?thesis by simp
next
  case False then show ?thesis by (simp add: upperChar_def)
qed

lemma upperText_star: "upperText x = ''*'' \<longleftrightarrow> x = CHR ''*''"
  by (simp add: upperText_def upperChar_star)

lemma upperText_nonempty: "upperText x \<noteq> []"
  by (simp add: upperText_def)

lemma toUpperCase_nonempty: "w \<noteq> [] \<Longrightarrow> toUpperCase w \<noteq> []"
  by (cases w) (simp_all add: toUpperCase_def upperText_nonempty)

lemma upper_token:
  assumes "methodChars w"
  shows "toUpperCase w \<noteq> [] \<and> (toUpperCase w = ''*'' \<longleftrightarrow> w = ''*'')"
proof -
  from assms have ne: "w \<noteq> []" by (simp add: methodChars_def)
  then obtain x xs where w: "w = x # xs" by (cases w) auto
  have e: "toUpperCase w = upperText x @ toUpperCase xs" by (simp add: w toUpperCase_def)
  have "toUpperCase w = ''*'' \<longleftrightarrow> w = ''*''"
  proof
    assume a: "toUpperCase w = ''*''"
    then have l: "length (upperText x) + length (toUpperCase xs) = 1"
      unfolding e by (metis length_append length_Cons list.size(3) One_nat_def)
    have "length (upperText x) \<noteq> 0" using upperText_nonempty[of x] by simp
    with l have "length (toUpperCase xs) = 0" by arith
    then have t: "toUpperCase xs = []" by simp
    then have "xs = []" using toUpperCase_nonempty[of xs] by blast
    moreover from a t have "upperText x = ''*''" unfolding e by simp
    then have "x = CHR ''*''" by (simp add: upperText_star)
    ultimately show "w = ''*''" using w by simp
  next
    assume "w = ''*''"
    then show "toUpperCase w = ''*''" by (simp add: toUpperCase_def upperText_def upperChar_def isLower_def isLatinLower_def)
  qed
  with toUpperCase_nonempty[OF ne] show ?thesis by simp
qed


lemma upper_ALL: "toUpperCase (trim ''ALL'') = ''ALL''"
  by code_simp

lemma preparseSource_method_token:
  assumes "preparseSource call (JStr d) = Inr p"
  shows "ps_type p = (case methodToken d of
                        None \<Rightarrow> ''ALL''
                      | Some tok \<Rightarrow> if tok = ''*'' then ''ALL'' else toUpperCase tok)"
proof -
  let ?s = "trim d"
  let ?m = "exec sourcePattern ?s"
  have a: "checkSource (if capture ?m 1 = JUndefined then JStr ''ALL'' else capture ?m 1) (capture ?m 2) = Inr p"
    using assms unfolding preparseSource.simps Let_def .
  have mm: "?m \<noteq> None"
  proof
    assume "?m = None"
    then have "capture ?m 2 = JUndefined" by (simp add: capture_def)
    with a show False by (simp add: checkSource_def Let_def split: jsval.splits)
  qed
  then obtain c where c: "?m = Some c" by blast
  from sourcePattern_method[OF c] show ?thesis
  proof
    assume h: "c 1 = None \<and> (take 1 ?s = ''/'' \<or> take 1 ?s = ''='' \<or> take 1 ?s = ''~'')"
    then have "methodToken d = None" by (simp add: methodToken_def)
    moreover from h c have "capture ?m 1 = JUndefined" by (simp add: capture_def)
    with a have "ps_type p = ''ALL''"
      using upper_ALL by (auto simp: checkSource_def Let_def split: jsval.splits if_splits)
    ultimately show ?thesis by simp
  next
    assume "\<exists>w sp rest. ?s = w @ sp # rest \<and> isSpace sp \<and> methodChars w \<and> c 1 = Some w"
    then obtain w sp rest where s: "?s = w @ sp # rest" and sp: "isSpace sp" and w: "methodChars w"
      and c1: "c 1 = Some w" by blast
    from w have ne: "w \<noteq> []" by (simp add: methodChars_def)
    from s ne have "take 1 ?s = [hd w]" by (cases w) auto
    with methodChars_hd[OF w] have "\<not> (take 1 ?s = ''/'' \<or> take 1 ?s = ''='' \<or> take 1 ?s = ''~'')" by simp
    moreover have "takeWhile (\<lambda>ch. \<not> isSpace ch) ?s = w" unfolding s using takeWhile_token[OF w sp] .
    ultimately have mt: "methodToken d = Some w" by (simp add: methodToken_def Let_def)
    from c c1 have "capture ?m 1 = JStr w" by (simp add: capture_def)
    with a have "checkSource (JStr w) (capture ?m 2) = Inr p" by simp
    then have "ps_type p = (if toUpperCase (trim w) = [] \<or> toUpperCase (trim w) = ''*'' then ''ALL'' else toUpperCase (trim w))"
      by (auto simp: checkSource_def Let_def split: jsval.splits if_splits)
    with trim_token[OF w] upper_token[OF w] have "ps_type p = (if w = ''*'' then ''ALL'' else toUpperCase w)"
      by simp
    with mt show ?thesis by simp
  qed
qed


lemma preparse_GET: "preparseSource call (JStr ''GET /'')
     = Inr \<lparr> ps_type = ''GET'', ps_url = ''/'', ps_prefix = False, ps_exact = False \<rparr>"
  by code_simp

lemma preparse_get: "preparseSource call (JStr ''get /'')
     = Inr \<lparr> ps_type = ''GET'', ps_url = ''/'', ps_prefix = False, ps_exact = False \<rparr>"
  by code_simp

lemma preparse_star: "preparseSource call (JStr ''* /'')
     = Inr \<lparr> ps_type = ''ALL'', ps_url = ''/'', ps_prefix = False, ps_exact = False \<rparr>"
  by code_simp

lemma preparse_bare: "preparseSource call (JStr ''/'')
     = Inr \<lparr> ps_type = ''ALL'', ps_url = ''/'', ps_prefix = False, ps_exact = False \<rparr>"
  by code_simp

lemma preparse_ANYTHING: "preparseSource call (JStr ''ANYTHING /'')
     = Inr \<lparr> ps_type = ''ANYTHING'', ps_url = ''/'', ps_prefix = False, ps_exact = False \<rparr>"
  by code_simp

text \<open>
  Claim C6. For every string source that \<open>preparseSource\<close> accepts, the method is \<open>ALL\<close>
  when the source has no method token or the token \<open>*\<close>, and the token in upper case for
  every other token, known or not. In particular \<open>GET /\<close> and \<open>get /\<close> yield \<open>GET\<close>,
  \<open>* /\<close> and \<open>/\<close> yield \<open>ALL\<close>, and \<open>ANYTHING /\<close> yields \<open>ANYTHING\<close>.
\<close>

theorem preparseSource_method:
  "(\<forall>d p. preparseSource call (JStr d) = Inr p \<longrightarrow>
       ps_type p = (case methodToken d of
                      None \<Rightarrow> ''ALL''
                    | Some tok \<Rightarrow> if tok = ''*'' then ''ALL'' else toUpperCase tok))
   \<and> preparseSource call (JStr ''GET /'')
       = Inr \<lparr> ps_type = ''GET'', ps_url = ''/'', ps_prefix = False, ps_exact = False \<rparr>
   \<and> preparseSource call (JStr ''get /'')
       = Inr \<lparr> ps_type = ''GET'', ps_url = ''/'', ps_prefix = False, ps_exact = False \<rparr>
   \<and> preparseSource call (JStr ''* /'')
       = Inr \<lparr> ps_type = ''ALL'', ps_url = ''/'', ps_prefix = False, ps_exact = False \<rparr>
   \<and> preparseSource call (JStr ''/'')
       = Inr \<lparr> ps_type = ''ALL'', ps_url = ''/'', ps_prefix = False, ps_exact = False \<rparr>
   \<and> preparseSource call (JStr ''ANYTHING /'')
       = Inr \<lparr> ps_type = ''ANYTHING'', ps_url = ''/'', ps_prefix = False, ps_exact = False \<rparr>"
  using preparseSource_method_token preparse_GET preparse_get preparse_star preparse_bare
    preparse_ANYTHING by blast

lemma preparse_some_type: "preparseSource call (JStr ''some-tYPE  ~/a/b'')
     = Inr \<lparr> ps_type = ''SOME-TYPE'', ps_url = ''/a/b'', ps_prefix = True, ps_exact = False \<rparr>"
  by code_simp

lemma token_some_type: "methodToken ''some-tYPE  ~/a/b'' = Some ''some-tYPE''"
  by code_simp

lemma upper_some_type: "toUpperCase ''some-tYPE'' = ''SOME-TYPE''"
  by code_simp

text \<open>The theorem at the source \<open>some-tYPE  ~/a/b\<close>, whose token \<open>some-tYPE\<close> names no
  HTTP method.\<close>

theorem preparseSource_method_witness:
  "(\<forall>call. preparseSource call (JStr ''some-tYPE  ~/a/b'')
     = Inr \<lparr> ps_type = ''SOME-TYPE'', ps_url = ''/a/b'', ps_prefix = True, ps_exact = False \<rparr>)
   \<and> methodToken ''some-tYPE  ~/a/b'' = Some ''some-tYPE''
   \<and> ps_type \<lparr> ps_type = ''SOME-TYPE'', ps_url = ''/a/b'', ps_prefix = True, ps_exact = False \<rparr>
       = toUpperCase ''some-tYPE''"
proof -
  from preparseSource_method preparse_some_type
  have "ps_type \<lparr> ps_type = ''SOME-TYPE'', ps_url = ''/a/b'', ps_prefix = True, ps_exact = False \<rparr>
        = (case methodToken ''some-tYPE  ~/a/b'' of
                      None \<Rightarrow> ''ALL''
                    | Some tok \<Rightarrow> if tok = ''*'' then ''ALL'' else toUpperCase tok)"
    by blast
  with preparse_some_type token_some_type upper_some_type show ?thesis by simp
qed

section \<open>End anchoring of a route's pattern\<close>

lemma sourceEnd_eq:
  "sourceEnd p isMatchingPrefix = (ps_exact p \<or> (\<not> isMatchingPrefix \<and> \<not> ps_prefix p))"
  by (simp add: sourceEnd_def)

lemma in_path_capture:
  assumes "(j, t, d) \<in> set (ms (Grp 2 (Seq (Opt (OneOf ''=~'')) (Seq (Lit CHR ''/'') (LazyStar Dot)))) (i, s, c))"
  shows "d 2 = Some (take (j - i) s) \<and> i < j"
proof -
  from assms[unfolded in_ms_Grp] obtain d' where
    m: "(j, t, d') \<in> set (ms (Seq (Opt (OneOf ''=~'')) (Seq (Lit CHR ''/'') (LazyStar Dot))) (i, s, c))"
    and d: "d = d'(2 \<mapsto> take (j - i) s)" by blast
  from m obtain u where u: "u \<in> set (ms (Opt (OneOf ''=~'')) (i, s, c))"
    and r: "(j, t, d') \<in> set (ms (Seq (Lit CHR ''/'') (LazyStar Dot)) u)"
    unfolding in_ms_Seq by blast
  obtain j1 t1 d1 where uu: "u = (j1, t1, d1)" by (cases u) auto
  from ms_suffix[OF u[unfolded uu]] have a: "i \<le> j1" by auto
  from r[unfolded uu in_ms_Seq] obtain v where v: "v \<in> set (ms (Lit CHR ''/'') (j1, t1, d1))"
    and l: "(j, t, d') \<in> set (ms (LazyStar Dot) v)" by blast
  obtain j3 t3 d3 where vv: "v = (j3, t3, d3)" by (cases v) auto
  from v[unfolded vv in_ms_Lit] have b: "j3 = Suc j1" by simp
  from ms_suffix[OF l[unfolded vv]] have "j3 \<le> j" by auto
  with a b have "i < j" by simp
  with d show ?thesis by simp
qed

lemma marker_not_space:
  assumes "take 1 t = ''/'' \<or> take 1 t = ''='' \<or> take 1 t = ''~''"
  shows "dropWhile isSpace t = t"
proof (cases t)
  case Nil
  then show ?thesis by simp
next
  case (Cons x xs)
  with assms have "x = CHR ''/'' \<or> x = CHR ''='' \<or> x = CHR ''~''" by simp
  then have "\<not> isSpace x" by (auto simp: isSpace_def)
  with Cons show ?thesis by simp
qed

lemma sourcePattern_path:
  assumes "exec sourcePattern s = Some c"
  shows "\<exists>u. c 2 = Some u
           \<and> take 1 u = take 1 (if take 1 s = ''/'' \<or> take 1 s = ''='' \<or> take 1 s = ''~'' then s
                                else dropWhile isSpace (dropWhile (\<lambda>ch. \<not> isSpace ch) s))"
proof -
  let ?T = "Grp 1 (Alt (Lit CHR ''*'')
                               (Seq (Chr isLetter) (Plus (Chr (\<lambda>ch. ch = CHR ''-'' \<or> isLetter ch)))))"
  let ?A = "Opt (Seq ?T (Plus (Chr isSpace)))"
  let ?B = "Grp 2 (Seq (Opt (OneOf ''=~'')) (Seq (Lit CHR ''/'') (LazyStar Dot)))"
  let ?C = "Seq (Opt (Seq (Star (Chr isSpace)) (Seq (Lit CHR ''='') (Seq (Lit CHR ''>'') (Plus Dot))))) Eol"
  have sp: "sourcePattern = Seq Bol (Seq ?A (Seq ?B ?C))" by (simp add: sourcePattern_def)
  from exec_anchored[OF assms[unfolded sp]] obtain j t d where
    m: "(j, t, d) \<in> set (ms (Seq ?A (Seq ?B ?C)) (0, s, Map.empty))" and c: "c = d(0 \<mapsto> take j s)" by blast
  from m obtain y where y: "y \<in> set (ms ?A (0, s, Map.empty))" and r: "(j, t, d) \<in> set (ms (Seq ?B ?C) y)"
    unfolding in_ms_Seq by blast
  obtain j1 t1 d1 where yy: "y = (j1, t1, d1)" by (cases y) auto
  from r[unfolded yy in_ms_Seq] obtain z where z: "z \<in> set (ms ?B (j1, t1, d1))"
    and zc: "(j, t, d) \<in> set (ms ?C z)" by blast
  obtain j2 t2 d2 where zz: "z = (j2, t2, d2)" by (cases z) auto
  have "2 \<notin> groupsOf ?C" by (simp add: Opt_def Plus_def Lit_def OneOf_def Dot_def)
  from ms_frame[OF zc[unfolded zz] this] have d2: "d 2 = d2 2" .
  from in_path_capture[OF z[unfolded zz]] have cap: "d2 2 = Some (take (j2 - j1) t1)" and lt: "j1 < j2"
    by simp_all
  from in_path_group[OF z] have t1: "take 1 t1 = ''/'' \<or> take 1 t1 = ''='' \<or> take 1 t1 = ''~''" .
  from c d2 cap have u: "c 2 = Some (take (j2 - j1) t1)" by simp
  from lt have "min 1 (j2 - j1) = 1" by simp
  then have tk: "take 1 (take (j2 - j1) t1) = take 1 t1" unfolding take_take by simp
  from y[unfolded in_ms_Opt] have "take 1 t1 = take 1 (if take 1 s = ''/'' \<or> take 1 s = ''='' \<or> take 1 s = ''~'' then s
                                else dropWhile isSpace (dropWhile (\<lambda>ch. \<not> isSpace ch) s))"
  proof
    assume "y = (0, s, Map.empty)"
    with yy have "t1 = s" by simp
    with t1 show ?thesis by simp
  next
    assume "y \<in> set (ms (Seq ?T (Plus (Chr isSpace))) (0, s, Map.empty))"
    then obtain q where q: "q \<in> set (ms ?T (0, s, Map.empty))" and p: "y \<in> set (ms (Plus (Chr isSpace)) q)"
      unfolding in_ms_Seq by blast
    obtain j3 t3 d3 where qq: "q = (j3, t3, d3)" by (cases q) auto
    from in_method_group[OF q[unfolded qq]] obtain w where w: "s = w @ t3" "methodChars w" by blast
    from in_ms_Plus_Chr[OF p[unfolded qq yy]] obtain v where v: "v \<noteq> []" "t3 = v @ t1" "\<forall>x \<in> set v. isSpace x"
      by blast
    from w(2) have ne: "w \<noteq> []" by (simp add: methodChars_def)
    with w(1) have "take 1 s = [hd w]" by (cases w) auto
    with methodChars_hd[OF w(2)] have nm: "\<not> (take 1 s = ''/'' \<or> take 1 s = ''='' \<or> take 1 s = ''~'')" by simp
    have "\<And>x. x \<in> set w \<Longrightarrow> \<not> isSpace x" using methodChars_nospace[OF w(2)] .
    then have "dropWhile (\<lambda>ch. \<not> isSpace ch) (w @ (v @ t1)) = dropWhile (\<lambda>ch. \<not> isSpace ch) (v @ t1)"
      by (rule dropWhile_append2)
    moreover from v(1,3) have "dropWhile (\<lambda>ch. \<not> isSpace ch) (v @ t1) = v @ t1" by (cases v) auto
    ultimately have a: "dropWhile (\<lambda>ch. \<not> isSpace ch) s = v @ t1" using w(1) v(2) by simp
    from v(3) have "dropWhile isSpace (v @ t1) = dropWhile isSpace t1" by (simp add: dropWhile_append2)
    with marker_not_space[OF t1] a have "dropWhile isSpace (dropWhile (\<lambda>ch. \<not> isSpace ch) s) = t1" by simp
    then show ?thesis unfolding if_not_P[OF nm] by simp
  qed
  with u tk show ?thesis by simp
qed

lemma checkSource_markers:
  "checkSource t (JStr u) = Inr p \<Longrightarrow> ps_exact p = (take 1 u = ''='') \<and> ps_prefix p = (take 1 u = ''~'')"
  by (auto simp: checkSource_def Let_def split: jsval.splits if_splits)

lemma preparseSource_string_markers:
  assumes "preparseSource call (JStr d) = Inr p"
  shows "ps_exact p = (sourceMarker (JStr d) = ''='') \<and> ps_prefix p = (sourceMarker (JStr d) = ''~'')"
proof -
  let ?s = "trim d"
  let ?m = "exec sourcePattern ?s"
  have a: "checkSource (if capture ?m 1 = JUndefined then JStr ''ALL'' else capture ?m 1) (capture ?m 2) = Inr p"
    using assms unfolding preparseSource.simps Let_def .
  have mm: "?m \<noteq> None"
  proof
    assume "?m = None"
    then have "capture ?m 2 = JUndefined" by (simp add: capture_def)
    with a show False by (simp add: checkSource_def Let_def split: jsval.splits)
  qed
  then obtain c where c: "?m = Some c" by blast
  from sourcePattern_path[OF c] obtain u where u: "c 2 = Some u" and
    t: "take 1 u = take 1 (if take 1 ?s = ''/'' \<or> take 1 ?s = ''='' \<or> take 1 ?s = ''~'' then ?s
                                else dropWhile isSpace (dropWhile (\<lambda>ch. \<not> isSpace ch) ?s))" by blast
  from c u have "capture ?m 2 = JStr u" by (simp add: capture_def)
  with a have "ps_exact p = (take 1 u = ''='') \<and> ps_prefix p = (take 1 u = ''~'')"
    using checkSource_markers by simp
  moreover have "sourceMarker (JStr d) = take 1 u" unfolding t by (simp add: sourcePath_def Let_def)
  ultimately show ?thesis by simp
qed

lemma preparseSource_object_markers:
  assumes "preparseSource call (JObj r ps) = Inr p"
  shows "ps_exact p = (sourceMarker (JObj r ps) = ''='') \<and> ps_prefix p = (sourceMarker (JObj r ps) = ''~'')"
proof -
  from assms obtain u t where u: "getProp (JObj r ps) ''url'' = JStr u" and "checkSource t (JStr u) = Inr p"
    by (auto split: jsval.splits if_splits sum.splits)
  from checkSource_markers[OF this(2)] u show ?thesis by simp
qed

lemma preparseSource_markers:
  assumes "preparseSource call source = Inr p"
  shows "ps_exact p = (sourceMarker source = ''='') \<and> ps_prefix p = (sourceMarker source = ''~'')"
proof (cases source)
  case (JStr d)
  with assms show ?thesis using preparseSource_string_markers by blast
next
  case (JObj r ps)
  with assms show ?thesis using preparseSource_object_markers by blast
qed (use assms in auto)

lemma parseSource_accepted:
  assumes "preparseSource call source = Inr p"
  shows "parseSource call Parser Compiler source isMatchingPrefix =
           (case Parser (ps_url p)
                   \<lparr> sensitive = True,
                     end_opt = Some (sourceMarker source = ''=''
                                       \<or> (\<not> isMatchingPrefix \<and> sourceMarker source \<noteq> ''~'')),
                     strict_opt = None \<rparr> of
              Inl e \<Rightarrow> Inl e
            | Inr (pat, params) \<Rightarrow>
                (case extractPrefix (ps_url p) of
                   Inl e \<Rightarrow> Inl e
                 | Inr pre \<Rightarrow>
                     (case Compiler (ps_url p) of
                        Inl e \<Rightarrow> Inl e
                      | Inr render \<Rightarrow>
                          Inr \<lparr> cs_method = ps_type p, cs_definition = ps_url p, cs_pattern = pat,
                                cs_parameters = params, cs_prefix = pre, cs_render = render \<rparr>)))"
proof -
  from preparseSource_markers[OF assms]
  have "sourceEnd p isMatchingPrefix
          = (sourceMarker source = ''='' \<or> (\<not> isMatchingPrefix \<and> sourceMarker source \<noteq> ''~''))"
    unfolding sourceEnd_eq by simp
  then show ?thesis unfolding parseSource_def assms by simp
qed

lemma parseSource_refused:
  "preparseSource call source = Inl e \<Longrightarrow> parseSource call Parser Compiler source isMatchingPrefix = Inl e"
  by (simp add: parseSource_def)

lemma preparse_exact_sample:
  "preparseSource call (JStr ''=/exact'')
     = Inr \<lparr> ps_type = ''ALL'', ps_url = ''/exact'', ps_prefix = False, ps_exact = True \<rparr>"
  by code_simp

lemma preparse_prefix_sample:
  "preparseSource call (JStr ''GET ~/pre'')
     = Inr \<lparr> ps_type = ''GET'', ps_url = ''/pre'', ps_prefix = True, ps_exact = False \<rparr>"
  by code_simp

lemma preparse_plain_sample:
  "preparseSource call (JStr ''/plain'')
     = Inr \<lparr> ps_type = ''ALL'', ps_url = ''/plain'', ps_prefix = False, ps_exact = False \<rparr>"
  by code_simp

lemma preparse_descriptor_sample:
  "preparseSource call (JObj 0 [(''type'', JStr ''put''), (''url'', JStr ''=/exact'')])
     = Inr \<lparr> ps_type = ''PUT'', ps_url = ''/exact'', ps_prefix = False, ps_exact = True \<rparr>"
  by code_simp

lemma prefix_exact_sample: "extractPrefix ''/exact'' = Inr ''/exact''"
  by code_simp

lemma prefix_prefix_sample: "extractPrefix ''/pre'' = Inr ''/pre''"
  by code_simp

lemma prefix_plain_sample: "extractPrefix ''/plain'' = Inr ''/plain''"
  by code_simp

lemma parseSource_exact_sample:
  "parseSource call sampleParser sampleCompiler (JStr ''=/exact'') True
     = Inr \<lparr> cs_method = ''ALL'', cs_definition = ''/exact'', cs_pattern = ''/exact$'',
             cs_parameters = [], cs_prefix = ''/exact'', cs_render = (\<lambda>vs. Inr ''/exact'') \<rparr>"
  by (simp add: parseSource_def preparse_exact_sample prefix_exact_sample sampleParser_def
        sampleCompiler_def sourceEnd_def del: preparseSource.simps)

lemma parseSource_descriptor_sample:
  "parseSource call sampleParser sampleCompiler
       (JObj 0 [(''type'', JStr ''put''), (''url'', JStr ''=/exact'')]) True
     = Inr \<lparr> cs_method = ''PUT'', cs_definition = ''/exact'', cs_pattern = ''/exact$'',
             cs_parameters = [], cs_prefix = ''/exact'', cs_render = (\<lambda>vs. Inr ''/exact'') \<rparr>"
  by (simp add: parseSource_def preparse_descriptor_sample prefix_exact_sample sampleParser_def
        sampleCompiler_def sourceEnd_def del: preparseSource.simps)

lemma parseSource_prefix_sample:
  "parseSource call sampleParser sampleCompiler (JStr ''GET ~/pre'') False
     = Inr \<lparr> cs_method = ''GET'', cs_definition = ''/pre'', cs_pattern = ''/pre'',
             cs_parameters = [], cs_prefix = ''/pre'', cs_render = (\<lambda>vs. Inr ''/pre'') \<rparr>"
  by (simp add: parseSource_def preparse_prefix_sample prefix_prefix_sample sampleParser_def
        sampleCompiler_def sourceEnd_def del: preparseSource.simps)

lemma parseSource_terminal_sample:
  "parseSource call sampleParser sampleCompiler (JStr ''/plain'') False
     = Inr \<lparr> cs_method = ''ALL'', cs_definition = ''/plain'', cs_pattern = ''/plain$'',
             cs_parameters = [], cs_prefix = ''/plain'', cs_render = (\<lambda>vs. Inr ''/plain'') \<rparr>"
  by (simp add: parseSource_def preparse_plain_sample prefix_plain_sample sampleParser_def
        sampleCompiler_def sourceEnd_def del: preparseSource.simps)

lemma parseSource_policy_sample:
  "parseSource call sampleParser sampleCompiler (JStr ''/plain'') True
     = Inr \<lparr> cs_method = ''ALL'', cs_definition = ''/plain'', cs_pattern = ''/plain'',
             cs_parameters = [], cs_prefix = ''/plain'', cs_render = (\<lambda>vs. Inr ''/plain'') \<rparr>"
  by (simp add: parseSource_def preparse_plain_sample prefix_plain_sample sampleParser_def
        sampleCompiler_def sourceEnd_def del: preparseSource.simps)

lemma parseTarget_function:
  "parseTarget v k c (TargetFunction f) sampleRegistry
     = Inr \<lparr> ct_handler = JFun f, ct_args = [], ct_warning = JUndefined \<rparr>"
  by (simp add: parseTarget_def sampleRegistry_def)

lemma policy_exact_sample:
  "\<exists>r. newPolicyRoute call sampleParser sampleCompiler id id (JStr ''=/exact'') (TargetFunction 0) sampleRegistry = Inr r
       \<and> r_pattern r = ''/exact$''"
  by (simp add: newPolicyRoute_def newRoute_def parseSource_exact_sample parseTarget_function)

lemma policy_plain_sample:
  "\<exists>r. newPolicyRoute call sampleParser sampleCompiler id id (JStr ''/plain'') (TargetFunction 0) sampleRegistry = Inr r
       \<and> r_pattern r = ''/plain''"
  by (simp add: newPolicyRoute_def newRoute_def parseSource_policy_sample parseTarget_function)

lemma terminal_prefix_sample:
  "\<exists>r. newTerminalRoute call sampleParser sampleCompiler id id (JStr ''GET ~/pre'') (TargetFunction 0) sampleRegistry = Inr r
       \<and> r_pattern r = ''/pre''"
  by (simp add: newTerminalRoute_def newRoute_def parseSource_prefix_sample parseTarget_function)

lemma terminal_plain_sample:
  "\<exists>r. newTerminalRoute call sampleParser sampleCompiler id id (JStr ''/plain'') (TargetFunction 0) sampleRegistry = Inr r
       \<and> r_pattern r = ''/plain$''"
  by (simp add: newTerminalRoute_def newRoute_def parseSource_terminal_sample parseTarget_function)

text \<open>
  Claim C5. Let the marker of a source be the first character of its path, as the text
  of the source has it. For every source that \<open>preparseSource\<close> accepts, \<open>parseSource\<close>
  is the outcome of the pattern compiler for the path of the source under the options
  \<open>sensitive = true\<close> (matching is case-sensitive in every case) and \<open>end\<close>, where
  \<open>end\<close> holds if and only if the marker is \<open>=\<close>, or the route is not prefix-matching and
  the marker is not \<open>~\<close>: \<open>parseSource\<close> fails only where the pattern compiler, the
  extraction of the prefix or the compiler of the render function fails, and its result
  holds the pattern and the parameters the pattern compiler gave. A source that
  \<open>preparseSource\<close> refuses is refused with the same error. In particular, with a pattern
  compiler that ends a pattern with \<open>$\<close> unless \<open>end\<close> is false: \<open>/plain\<close> is anchored for
  a route that is not prefix-matching and not anchored for one that is, \<open>GET ~/pre\<close> is
  not anchored for a route that is not prefix-matching, \<open>=/exact\<close> is anchored for a
  prefix-matching route, as a string and as the \<open>url\<close> of a descriptor; and so for the
  routes of policies, which are prefix-matching, and of controllers, which are not.
\<close>

theorem parseSource_end_anchoring:
  "(\<forall>p. preparseSource call source = Inr p \<longrightarrow>
        ps_exact p = (sourceMarker source = ''='') \<and> ps_prefix p = (sourceMarker source = ''~'')
      \<and> parseSource call Parser Compiler source isMatchingPrefix =
           (case Parser (ps_url p)
                   \<lparr> sensitive = True,
                     end_opt = Some (sourceMarker source = ''=''
                                       \<or> (\<not> isMatchingPrefix \<and> sourceMarker source \<noteq> ''~'')),
                     strict_opt = None \<rparr> of
              Inl e \<Rightarrow> Inl e
            | Inr (pat, params) \<Rightarrow>
                (case extractPrefix (ps_url p) of
                   Inl e \<Rightarrow> Inl e
                 | Inr pre \<Rightarrow>
                     (case Compiler (ps_url p) of
                        Inl e \<Rightarrow> Inl e
                      | Inr render \<Rightarrow>
                          Inr \<lparr> cs_method = ps_type p, cs_definition = ps_url p, cs_pattern = pat,
                                cs_parameters = params, cs_prefix = pre, cs_render = render \<rparr>))))
   \<and> (\<forall>e. preparseSource call source = Inl e \<longrightarrow>
        parseSource call Parser Compiler source isMatchingPrefix = Inl e)
   \<and> parseSource call sampleParser sampleCompiler (JStr ''/plain'') False
       = Inr \<lparr> cs_method = ''ALL'', cs_definition = ''/plain'', cs_pattern = ''/plain$'',
               cs_parameters = [], cs_prefix = ''/plain'', cs_render = (\<lambda>vs. Inr ''/plain'') \<rparr>
   \<and> parseSource call sampleParser sampleCompiler (JStr ''/plain'') True
       = Inr \<lparr> cs_method = ''ALL'', cs_definition = ''/plain'', cs_pattern = ''/plain'',
               cs_parameters = [], cs_prefix = ''/plain'', cs_render = (\<lambda>vs. Inr ''/plain'') \<rparr>
   \<and> parseSource call sampleParser sampleCompiler (JStr ''GET ~/pre'') False
       = Inr \<lparr> cs_method = ''GET'', cs_definition = ''/pre'', cs_pattern = ''/pre'',
               cs_parameters = [], cs_prefix = ''/pre'', cs_render = (\<lambda>vs. Inr ''/pre'') \<rparr>
   \<and> parseSource call sampleParser sampleCompiler (JStr ''=/exact'') True
       = Inr \<lparr> cs_method = ''ALL'', cs_definition = ''/exact'', cs_pattern = ''/exact$'',
               cs_parameters = [], cs_prefix = ''/exact'', cs_render = (\<lambda>vs. Inr ''/exact'') \<rparr>
   \<and> parseSource call sampleParser sampleCompiler
         (JObj 0 [(''type'', JStr ''put''), (''url'', JStr ''=/exact'')]) True
       = Inr \<lparr> cs_method = ''PUT'', cs_definition = ''/exact'', cs_pattern = ''/exact$'',
               cs_parameters = [], cs_prefix = ''/exact'', cs_render = (\<lambda>vs. Inr ''/exact'') \<rparr>
   \<and> (\<exists>r. newPolicyRoute call sampleParser sampleCompiler id id (JStr ''=/exact'') (TargetFunction 0) sampleRegistry = Inr r
          \<and> r_pattern r = ''/exact$'')
   \<and> (\<exists>r. newPolicyRoute call sampleParser sampleCompiler id id (JStr ''/plain'') (TargetFunction 0) sampleRegistry = Inr r
          \<and> r_pattern r = ''/plain'')
   \<and> (\<exists>r. newTerminalRoute call sampleParser sampleCompiler id id (JStr ''GET ~/pre'') (TargetFunction 0) sampleRegistry = Inr r
          \<and> r_pattern r = ''/pre'')
   \<and> (\<exists>r. newTerminalRoute call sampleParser sampleCompiler id id (JStr ''/plain'') (TargetFunction 0) sampleRegistry = Inr r
          \<and> r_pattern r = ''/plain$'')"
proof (intro conjI allI impI)
  fix p assume a: "preparseSource call source = Inr p"
  from preparseSource_markers[OF a] show "ps_exact p = (sourceMarker source = ''='')" by simp
  from preparseSource_markers[OF a] show "ps_prefix p = (sourceMarker source = ''~'')" by simp
  show "parseSource call Parser Compiler source isMatchingPrefix =
           (case Parser (ps_url p)
                   \<lparr> sensitive = True,
                     end_opt = Some (sourceMarker source = ''=''
                                       \<or> (\<not> isMatchingPrefix \<and> sourceMarker source \<noteq> ''~'')),
                     strict_opt = None \<rparr> of
              Inl e \<Rightarrow> Inl e
            | Inr (pat, params) \<Rightarrow>
                (case extractPrefix (ps_url p) of
                   Inl e \<Rightarrow> Inl e
                 | Inr pre \<Rightarrow>
                     (case Compiler (ps_url p) of
                        Inl e \<Rightarrow> Inl e
                      | Inr render \<Rightarrow>
                          Inr \<lparr> cs_method = ps_type p, cs_definition = ps_url p, cs_pattern = pat,
                                cs_parameters = params, cs_prefix = pre, cs_render = render \<rparr>)))"
    by (rule parseSource_accepted[OF a])
next
  fix e assume "preparseSource call source = Inl e"
  then show "parseSource call Parser Compiler source isMatchingPrefix = Inl e"
    by (rule parseSource_refused)
qed (rule parseSource_terminal_sample parseSource_policy_sample parseSource_prefix_sample
       parseSource_exact_sample parseSource_descriptor_sample policy_exact_sample
       policy_plain_sample terminal_prefix_sample terminal_plain_sample)+

lemma preparse_tilde_sample:
  "preparseSource call (JStr ''  post   ~/a/b => Some::target '')
     = Inr \<lparr> ps_type = ''POST'', ps_url = ''/a/b'', ps_prefix = True, ps_exact = False \<rparr>"
  by code_simp

lemma marker_tilde_sample: "sourceMarker (JStr ''  post   ~/a/b => Some::target '') = ''~''"
  by code_simp

lemma prefix_tilde_sample: "extractPrefix ''/a/b'' = Inr ''/a/b''"
  by code_simp

text \<open>
  The theorem at the source \<open>post ~/a/b => Some::target\<close> with white space around its
  parts, for a route that is not prefix-matching: the marker is \<open>~\<close>, the pattern
  compiler is called with \<open>end = false\<close>, and \<open>parseSource\<close> returns its pattern.
\<close>

theorem parseSource_end_anchoring_witness:
  "sourceMarker (JStr ''  post   ~/a/b => Some::target '') = ''~''
   \<and> (\<forall>call. parseSource call sampleParser sampleCompiler (JStr ''  post   ~/a/b => Some::target '') False
       = Inr \<lparr> cs_method = ''POST'', cs_definition = ''/a/b'', cs_pattern = ''/a/b'',
               cs_parameters = [], cs_prefix = ''/a/b'', cs_render = (\<lambda>vs. Inr ''/a/b'') \<rparr>)"
proof -
  have "parseSource call sampleParser sampleCompiler (JStr ''  post   ~/a/b => Some::target '') False
       = Inr \<lparr> cs_method = ''POST'', cs_definition = ''/a/b'', cs_pattern = ''/a/b'',
               cs_parameters = [], cs_prefix = ''/a/b'', cs_render = (\<lambda>vs. Inr ''/a/b'') \<rparr>" for call
    using parseSource_end_anchoring[of call "JStr ''  post   ~/a/b => Some::target ''" sampleParser sampleCompiler False]
      preparse_tilde_sample[of call]
    by (simp add: marker_tilde_sample prefix_tilde_sample sampleParser_def sampleCompiler_def
          del: preparseSource.simps sourceMarker.simps)
  with marker_tilde_sample show ?thesis by blast
qed

section \<open>The static prefix of a path\<close>

lemma search_Bol_pos: "0 < i \<Longrightarrow> search (Grp 0 (Seq Bol r)) i s = []"
  by (induction s arbitrary: i) auto

lemma search_anchored:
  "search (Grp 0 (Seq Bol r)) 0 s = map (\<lambda>(j, t, d). (j, t, d(0 \<mapsto> take j s))) (ms r (0, s, Map.empty))"
  by (cases s) (simp_all add: search_Bol_pos)

lemma ms_Star_Chr_rec:
  "ms (Star (Chr P)) (i, x # xs, c) = (if P x then ms (Star (Chr P)) (Suc i, xs, c) @ [(i, x # xs, c)] else [(i, x # xs, c)])"
  by (subst ms.simps(7)) simp

lemma ms_Star_Chr_Nil: "ms (Star (Chr P)) (i, [], c) = [(i, [], c)]"
  by (subst ms.simps(7)) simp

lemma ms_Star_Chr_list:
  "ms (Star (Chr P)) (i, s, c) = map (\<lambda>k. (i + k, drop k s, c)) (rev [0..<Suc (length (takeWhile P s))])"
proof (induction s arbitrary: i)
  case Nil
  then show ?case by (simp add: ms_Star_Chr_Nil)
next
  case (Cons x xs)
  show ?case
  proof (cases "P x")
    case False
    then show ?thesis by (simp add: ms_Star_Chr_rec)
  next
    case True
    let ?n = "length (takeWhile P xs)"
    have a: "[0..<Suc (Suc ?n)] = 0 # map Suc [0..<Suc ?n]"
      by (subst upt_rec) (simp add: map_Suc_upt del: upt_Suc)
    have "map (\<lambda>k. (i + k, drop k (x # xs), c)) (rev [0..<Suc (Suc ?n)])
        = map (\<lambda>k. (Suc i + k, drop k xs, c)) (rev [0..<Suc ?n]) @ [(i, x # xs, c)]"
      unfolding a by (simp add: rev_map del: upt_Suc)
    then show ?thesis using True Cons.IH[of "Suc i"] by (simp add: ms_Star_Chr_rec del: upt_Suc)
  qed
qed

lemma prefixTail_nonempty:
  "ms prefixTail (k, s, c) \<noteq> [] \<longleftrightarrow>
     (s = [] \<or> hd s \<in> set ''(:[{''
        \<or> (2 \<le> length s \<and> \<not> isLineTerminator (hd s) \<and> s ! 1 \<in> set ''*+?''))"
proof (cases s)
  case Nil
  then show ?thesis by (simp add: prefixTail_def Dot_def OneOf_def)
next
  case (Cons x xs)
  show ?thesis
  proof (cases xs)
    case Nil
    with Cons show ?thesis by (simp add: prefixTail_def Dot_def OneOf_def)
  next
    case (Cons y ys)
    with \<open>s = x # xs\<close> show ?thesis by (simp add: prefixTail_def Dot_def OneOf_def)
  qed
qed

lemma prefixTail_frame:
  "(j, t, d) \<in> set (ms prefixTail (k, s, c)) \<Longrightarrow> d 1 = c 1"
  using ms_frame[of j t d prefixTail k s c 1]
  by (simp add: prefixTail_def Dot_def OneOf_def)

lemma prefixPattern_eq:
  "prefixPattern = Seq Bol (Seq (Grp 1 (Star (Chr (\<lambda>ch. ch \<notin> set ''*+?(:[{'')))) prefixTail)"
  by (simp add: prefixPattern_def prefixTail_def NoneOf_def)

lemma ms_prefix_body:
  "ms (Seq (Grp 1 (Star (Chr (\<lambda>ch. ch \<notin> set ''*+?(:[{'')))) prefixTail) (0, url, Map.empty)
     = concat (map (tailAt url) (rev [0..<Suc (length (literalRun url))]))"
  by (simp add: ms_Star_Chr_list literalRun_def tailAt_def[abs_def] comp_def del: upt_Suc)

lemma concat_map_empty: "(\<And>x. x \<in> set xs \<Longrightarrow> f x = []) \<Longrightarrow> concat (map f xs) = []"
  by (induction xs) auto

lemma url_split: "url = literalRun url @ afterRun url"
  by (simp add: literalRun_def afterRun_def)

lemma afterRun_hd: "afterRun url \<noteq> [] \<Longrightarrow> hd (afterRun url) \<in> set ''*+?(:[{''"
  unfolding afterRun_def using hd_dropWhile[of "\<lambda>ch. ch \<notin> set ''*+?(:[{''" url] by blast

lemma literalRun_chars:
  assumes "x \<in> set (literalRun url)"
  shows "x \<notin> set ''*+?(:[{''"
proof -
  from assms have "x \<in> set (takeWhile (\<lambda>ch. ch \<notin> set ''*+?(:[{'') url)"
    by (simp only: literalRun_def)
  from set_takeWhileD[OF this] show ?thesis by blast
qed

lemma drop_run: "drop (length (literalRun url)) url = afterRun url"
  using url_split[of url] by (metis append_eq_conv_conj)

lemma take_run: "take (length (literalRun url)) url = literalRun url"
  using url_split[of url] by (metis append_eq_conv_conj)

lemma tailAt_inside:
  assumes "Suc k < length (literalRun url)"
  shows "tailAt url k = []"
proof -
  let ?run = "literalRun url"
  from assms have k: "k < length ?run" "Suc k < length ?run" by simp_all
  have d: "drop k url = ?run ! k # ?run ! Suc k # drop (Suc (Suc k)) ?run @ afterRun url"
    using k by (subst url_split[of url]) (simp add: Cons_nth_drop_Suc)
  have "?run ! k \<in> set ?run" "?run ! Suc k \<in> set ?run" using k by simp_all
  then have n: "?run ! k \<notin> set ''*+?(:[{''" "?run ! Suc k \<notin> set ''*+?(:[{''"
    using literalRun_chars by blast+
  have "\<not> (ms prefixTail (k, drop k url, [1 \<mapsto> take k url]) \<noteq> [])"
    unfolding prefixTail_nonempty d using n by simp
  then show ?thesis by (simp add: tailAt_def)
qed

lemma exec_anchored_head:
  "ms r (0, s, Map.empty) = (j, t, d) # rest \<Longrightarrow> exec (Seq Bol r) s = Some (d(0 \<mapsto> take j s))"
  by (simp add: exec_def search_anchored)

lemma exec_anchored_none:
  "ms r (0, s, Map.empty) = [] \<Longrightarrow> exec (Seq Bol r) s = None"
  by (simp add: exec_def search_anchored)

lemma tailAt_capture:
  assumes "tailAt url k = x # xs"
  shows "\<exists>j t d. x = (j, t, d) \<and> d 1 = Some (take k url)"
proof -
  obtain j t d where x: "x = (j, t, d)" by (cases x) auto
  with assms have "(j, t, d) \<in> set (ms prefixTail (k, drop k url, [1 \<mapsto> take k url]))"
    by (simp add: tailAt_def)
  from prefixTail_frame[OF this] x show ?thesis by simp
qed

lemma exec_prefix_run:
  assumes "tailAt url (length (literalRun url)) \<noteq> []"
  shows "\<exists>c. exec prefixPattern url = Some c \<and> c 1 = Some (literalRun url)"
proof -
  let ?n = "length (literalRun url)"
  from assms obtain x xs where f: "tailAt url ?n = x # xs" by (cases "tailAt url ?n") auto
  from tailAt_capture[OF f] obtain j t d where x: "x = (j, t, d)" and d: "d 1 = Some (take ?n url)" by blast
  have "ms (Seq (Grp 1 (Star (Chr (\<lambda>ch. ch \<notin> set ''*+?(:[{'')))) prefixTail) (0, url, Map.empty)
      = (j, t, d) # (xs @ concat (map (tailAt url) (rev [0..<?n])))"
    unfolding ms_prefix_body using f x by simp
  from exec_anchored_head[OF this] d show ?thesis
    unfolding prefixPattern_eq by (simp add: take_run)
qed

lemma exec_prefix_butlast:
  assumes "tailAt url (length (literalRun url)) = []" "length (literalRun url) = Suc m"
    "tailAt url m \<noteq> []"
  shows "\<exists>c. exec prefixPattern url = Some c \<and> c 1 = Some (butlast (literalRun url))"
proof -
  let ?n = "length (literalRun url)"
  from assms(3) obtain x xs where f: "tailAt url m = x # xs" by (cases "tailAt url m") auto
  from tailAt_capture[OF f] obtain j t d where x: "x = (j, t, d)" and d: "d 1 = Some (take m url)" by blast
  have "ms (Seq (Grp 1 (Star (Chr (\<lambda>ch. ch \<notin> set ''*+?(:[{'')))) prefixTail) (0, url, Map.empty)
      = (j, t, d) # (xs @ concat (map (tailAt url) (rev [0..<m])))"
    unfolding ms_prefix_body using f x assms(1,2) by simp
  moreover have "take m url = butlast (literalRun url)"
  proof -
    have "take m url = take m (literalRun url)"
      using assms(2) by (subst url_split[of url]) simp
    also have "\<dots> = butlast (literalRun url)" using assms(2) by (simp add: butlast_conv_take)
    finally show ?thesis .
  qed
  ultimately show ?thesis using exec_anchored_head d
    unfolding prefixPattern_eq by fastforce
qed

lemma exec_prefix_none:
  assumes "tailAt url (length (literalRun url)) = []"
    "length (literalRun url) = 0 \<or> tailAt url (length (literalRun url) - 1) = []"
  shows "exec prefixPattern url = None"
proof -
  let ?n = "length (literalRun url)"
  have "\<And>k. k \<in> set (rev [0..<Suc ?n]) \<Longrightarrow> tailAt url k = []"
  proof -
    fix k assume "k \<in> set (rev [0..<Suc ?n])"
    then have "k \<le> ?n" by auto
    then consider "k = ?n" | "Suc k = ?n" | "Suc k < ?n" by linarith
    then show "tailAt url k = []"
    proof cases
      case 1 with assms(1) show ?thesis by simp
    next
      case 2
      then have "?n - 1 = k" "?n \<noteq> 0" by auto
      with assms(2) show ?thesis by metis
    next
      case 3 then show ?thesis by (rule tailAt_inside)
    qed
  qed
  then have "concat (map (tailAt url) (rev [0..<Suc ?n])) = []" by (rule concat_map_empty)
  then show ?thesis unfolding prefixPattern_eq
    by (intro exec_anchored_none) (simp only: ms_prefix_body)
qed

lemma meta_not_terminator: "x \<in> set ''*+?(:[{'' \<Longrightarrow> \<not> isLineTerminator x"
  by (auto simp: isLineTerminator_def)

lemma search_finalSlash:
  "search (Grp 0 finalSlash) i s
     = (if s \<noteq> [] \<and> last s = CHR ''/'' then [(i + length s, [], [0 \<mapsto> ''/''])] else [])"
proof (induction s arbitrary: i)
  case Nil
  then show ?case by (simp add: finalSlash_def Lit_def)
next
  case (Cons x xs)
  have "ms (Grp 0 finalSlash) (i, x # xs, Map.empty)
      = (if x = CHR ''/'' \<and> xs = [] then [(Suc i, [], [0 \<mapsto> ''/''])] else [])"
    by (cases xs) (auto simp: finalSlash_def Lit_def)
  with Cons.IH[of "Suc i"] show ?case by auto
qed

lemma replace_finalSlash:
  "replaceFirst finalSlash [] p = (if p \<noteq> [] \<and> last p = CHR ''/'' then butlast p else p)"
  by (simp add: replaceFirst_def search_finalSlash butlast_conv_take)

lemma extractPrefix_of_capture:
  assumes "exec prefixPattern url = Some c" "c 1 = Some p"
  shows "extractPrefix url = Inr (tidyPrefix p)"
  using assms by (simp add: extractPrefix_def replace_finalSlash tidyPrefix_def Let_def)

lemma tailAt_run:
  "tailAt url (length (literalRun url)) \<noteq> [] \<longleftrightarrow>
     (afterRun url = [] \<or> hd (afterRun url) \<in> set ''(:[{''
        \<or> (2 \<le> length (afterRun url) \<and> afterRun url ! 1 \<in> set ''*+?''))"
proof -
  let ?rest = "afterRun url"
  have "2 \<le> length ?rest \<Longrightarrow> \<not> isLineTerminator (hd ?rest)"
  proof -
    assume "2 \<le> length ?rest"
    then have "?rest \<noteq> []" by auto
    from afterRun_hd[OF this] show ?thesis by (rule meta_not_terminator)
  qed
  then show ?thesis
    unfolding tailAt_def prefixTail_nonempty drop_run by blast
qed

lemma drop_before_last:
  assumes "length (literalRun url) = Suc m"
  shows "drop m url = last (literalRun url) # afterRun url"
proof -
  let ?run = "literalRun url"
  from assms have ne: "?run \<noteq> []" by auto
  then have "?run = butlast ?run @ [last ?run]" by simp
  moreover from assms have "length (butlast ?run) = m" by simp
  ultimately have "drop m ?run = [last ?run]" by (metis append_eq_conv_conj)
  moreover have "drop m url = drop m ?run @ afterRun url"
    using assms by (subst url_split[of url]) simp
  ultimately show ?thesis by simp
qed

lemma tailAt_before_last:
  assumes "length (literalRun url) = Suc m"
  shows "tailAt url m \<noteq> [] \<longleftrightarrow>
     (afterRun url \<noteq> [] \<and> \<not> isLineTerminator (last (literalRun url)) \<and> hd (afterRun url) \<in> set ''*+?'')"
proof -
  let ?run = "literalRun url"
  from assms have "?run \<noteq> []" by auto
  then have "last ?run \<in> set ?run" by simp
  from literalRun_chars[OF this] have n: "last ?run \<notin> set ''(:[{''" by simp
  show ?thesis
    unfolding tailAt_def prefixTail_nonempty drop_before_last[OF assms] using n
    by (cases "afterRun url") auto
qed

lemma extractPrefix_rule:
  "extractPrefix url =
     (if afterRun url = [] \<or> hd (afterRun url) \<in> set ''(:[{''
          \<or> (2 \<le> length (afterRun url) \<and> afterRun url ! 1 \<in> set ''*+?'')
      then Inr (tidyPrefix (literalRun url))
      else if literalRun url \<noteq> [] \<and> \<not> isLineTerminator (last (literalRun url))
      then Inr (tidyPrefix (butlast (literalRun url)))
      else Inl (RuntimeTypeError ''object null is not iterable''))"
proof (cases "tailAt url (length (literalRun url)) \<noteq> []")
  case True
  from exec_prefix_run[OF True] obtain c where cc: "exec prefixPattern url = Some c" "c 1 = Some (literalRun url)"
    by blast
  from True have t: "afterRun url = [] \<or> hd (afterRun url) \<in> set ''(:[{''
          \<or> (2 \<le> length (afterRun url) \<and> afterRun url ! 1 \<in> set ''*+?'')"
    unfolding tailAt_run .
  from extractPrefix_of_capture[OF cc] show ?thesis
    unfolding if_P[OF t] .
next
  case False
  then have e: "tailAt url (length (literalRun url)) = []" by simp
  from False have c: "\<not> (afterRun url = [] \<or> hd (afterRun url) \<in> set ''(:[{''
          \<or> (2 \<le> length (afterRun url) \<and> afterRun url ! 1 \<in> set ''*+?''))"
    unfolding tailAt_run .
  then have ne: "afterRun url \<noteq> []" and no: "hd (afterRun url) \<notin> set ''(:[{''" by blast+
  from afterRun_hd[OF ne] no have md: "hd (afterRun url) \<in> set ''*+?''" by auto
  show ?thesis
  proof (cases "literalRun url \<noteq> [] \<and> \<not> isLineTerminator (last (literalRun url))")
    case True
    then obtain m where m: "length (literalRun url) = Suc m" by (cases "literalRun url") auto
    with True ne md have "tailAt url m \<noteq> []" unfolding tailAt_before_last[OF m] by blast
    from exec_prefix_butlast[OF e m this] obtain c where
      "exec prefixPattern url = Some c" "c 1 = Some (butlast (literalRun url))" by blast
    from extractPrefix_of_capture[OF this] show ?thesis
      unfolding if_not_P[OF c] if_P[OF True] .
  next
    case False
    have "length (literalRun url) = 0 \<or> tailAt url (length (literalRun url) - 1) = []"
    proof (cases "literalRun url")
      case Nil then show ?thesis by simp
    next
      case (Cons x xs)
      then have m: "length (literalRun url) = Suc (length xs)" by simp
      from Cons False have "isLineTerminator (last (literalRun url))" by simp
      then have "\<not> tailAt url (length xs) \<noteq> []" unfolding tailAt_before_last[OF m] by blast
      with m show ?thesis by simp
    qed
    from exec_prefix_none[OF e this]
    have "extractPrefix url = Inl (RuntimeTypeError ''object null is not iterable'')"
      by (simp add: extractPrefix_def)
    then show ?thesis
      unfolding if_not_P[OF c] if_not_P[OF False] .
  qed
qed

lemma prefix_root: "extractPrefix ''/'' = Inr ''/''"
  by code_simp

lemma prefix_named: "extractPrefix ''/test/more/:name'' = Inr ''/test/more''"
  by code_simp

lemma prefix_groups: "extractPrefix ''/tes(t)?/(more)'' = Inr ''/tes''"
  by code_simp

text \<open>
  Claim C3, amended. Let the run of a path be its longest run of characters before the
  first of \<open>* + ? ( : [ {\<close>. When the path ends after the run, or the run is followed by
  one of \<open>( : [ {\<close>, or by two characters of which the second is one of \<open>* + ?\<close>, the
  prefix is the run without a final slash, and \<open>/\<close> when that is empty. Otherwise the run
  is followed by one of \<open>* + ?\<close> and by no second one of them, and the pattern takes the
  last character of the run together with it: then that character is left out before
  the final slash is cut, and \<open>parseSource\<close> throws when the run is empty or ends in a
  line terminator. In particular
  the prefix of \<open>/\<close> is \<open>/\<close>, of \<open>/test/more/:name\<close> is \<open>/test/more\<close> and of
  \<open>/tes(t)?/(more)\<close> is \<open>/tes\<close>.
\<close>

theorem extractPrefix_modifier_aware:
  "extractPrefix url =
     (if afterRun url = [] \<or> hd (afterRun url) \<in> set ''(:[{''
          \<or> (2 \<le> length (afterRun url) \<and> afterRun url ! 1 \<in> set ''*+?'')
      then Inr (tidyPrefix (literalRun url))
      else if literalRun url \<noteq> [] \<and> \<not> isLineTerminator (last (literalRun url))
      then Inr (tidyPrefix (butlast (literalRun url)))
      else Inl (RuntimeTypeError ''object null is not iterable''))
   \<and> extractPrefix ''/'' = Inr ''/''
   \<and> extractPrefix ''/test/more/:name'' = Inr ''/test/more''
   \<and> extractPrefix ''/tes(t)?/(more)'' = Inr ''/tes''"
  using extractPrefix_rule[of url] prefix_root prefix_named prefix_groups by blast

lemma preparse_modified_literal:
  "preparseSource call (JStr ''/test?'')
     = Inr \<lparr> ps_type = ''ALL'', ps_url = ''/test?'', ps_prefix = False, ps_exact = False \<rparr>"
  by code_simp

lemma prefix_modified_literal: "extractPrefix ''/test?'' = Inr ''/tes''"
  by code_simp

lemma run_modified_literal: "tidyPrefix (literalRun ''/test?'') = ''/test''"
  by code_simp

lemma preparse_escaped_modifier:
  "preparseSource call (JStr escapedModifierPath)
     = Inr \<lparr> ps_type = ''ALL'', ps_url = escapedModifierPath, ps_prefix = False, ps_exact = False \<rparr>"
  by code_simp

lemma prefix_escaped_modifier: "extractPrefix escapedModifierPath = Inr ''/test''"
  by code_simp

lemma run_escaped_modifier: "tidyPrefix (literalRun escapedModifierPath) = ''/test'' @ [CHR 0x5C]"
  by code_simp

text \<open>
  Claim C3 as it was stated fails at the path \<open>/test?\<close>, which \<open>preparseSource\<close> accepts
  and which the documentation of \<open>selectProbablyCoveredPrefixes\<close> lists as a route: the
  longest run before the first metacharacter is \<open>/test\<close>, the extracted prefix is
  \<open>/tes\<close>. It fails as well where the question mark is escaped by a backslash: the run
  ends with the backslash, the extracted prefix is \<open>/test\<close>.
\<close>

theorem extractPrefix_literal_run_counterexample:
  "(\<forall>call. preparseSource call (JStr ''/test?'')
     = Inr \<lparr> ps_type = ''ALL'', ps_url = ''/test?'', ps_prefix = False, ps_exact = False \<rparr>)
   \<and> extractPrefix ''/test?'' = Inr ''/tes''
   \<and> tidyPrefix (literalRun ''/test?'') = ''/test''
   \<and> extractPrefix ''/test?'' \<noteq> Inr (tidyPrefix (literalRun ''/test?''))
   \<and> (\<forall>call. preparseSource call (JStr escapedModifierPath)
     = Inr \<lparr> ps_type = ''ALL'', ps_url = escapedModifierPath, ps_prefix = False, ps_exact = False \<rparr>)
   \<and> extractPrefix escapedModifierPath = Inr ''/test''
   \<and> tidyPrefix (literalRun escapedModifierPath) = ''/test'' @ [CHR 0x5C]
   \<and> extractPrefix escapedModifierPath \<noteq> Inr (tidyPrefix (literalRun escapedModifierPath))"
  using preparse_modified_literal prefix_modified_literal run_modified_literal
    preparse_escaped_modifier prefix_escaped_modifier run_escaped_modifier by simp

section \<open>The argument of the prefix-covering analyzer\<close>

lemma invalidOption_iff:
  "invalidOption x \<longleftrightarrow> (\<forall>s. x \<noteq> JStr s) \<or> (\<exists>s. x = JStr s \<and> length (trim s) = 0)"
  by (cases x) auto

text \<open>
  Claim C10. \<open>selectProbablyCoveredPrefixes\<close> throws its TypeError for every argument that
  is not an array, and for every array with an element that is not a string or is a
  string of trimmed length zero, whatever the pattern compiler and the regular expression
  would do: nothing is computed before. The empty array yields the empty mapping, the
  pattern of the route's own path being compiled as it was when the route was made.
\<close>

theorem selectProbablyCoveredPrefixes_validates:
  "(\<not> isArray opts \<longrightarrow>
      selectProbablyCoveredPrefixes Parser RegExpNew r opts
        = Inl (TypeError ''invalid set of options to filter''))
   \<and> (x \<in> set xs \<and> ((\<forall>s. x \<noteq> JStr s) \<or> (\<exists>s. x = JStr s \<and> length (trim s) = 0)) \<longrightarrow>
      selectProbablyCoveredPrefixes Parser RegExpNew r (JArr ref xs)
        = Inl (TypeError ''invalid set of options to filter''))
   \<and> (Parser (r_path r) \<lparr> sensitive = True, end_opt = None, strict_opt = Some False \<rparr> = Inr (src, dummy)
        \<and> RegExpNew (replaceFirst finalDollar [] src) = Inr myPattern \<longrightarrow>
      selectProbablyCoveredPrefixes Parser RegExpNew r (JArr ref []) = Inr Map.empty)"
proof (intro conjI impI)
  assume "\<not> isArray opts"
  then show "selectProbablyCoveredPrefixes Parser RegExpNew r opts
        = Inl (TypeError ''invalid set of options to filter'')"
    by (cases opts) (simp_all add: selectProbablyCoveredPrefixes_def)
next
  assume a: "x \<in> set xs \<and> ((\<forall>s. x \<noteq> JStr s) \<or> (\<exists>s. x = JStr s \<and> length (trim s) = 0))"
  then have "invalidOption x" unfolding invalidOption_iff by blast
  with a have "list_ex invalidOption xs" unfolding list_ex_iff by blast
  then show "selectProbablyCoveredPrefixes Parser RegExpNew r (JArr ref xs)
        = Inl (TypeError ''invalid set of options to filter'')"
    by (simp add: selectProbablyCoveredPrefixes_def)
next
  assume "Parser (r_path r) \<lparr> sensitive = True, end_opt = None, strict_opt = Some False \<rparr> = Inr (src, dummy)
        \<and> RegExpNew (replaceFirst finalDollar [] src) = Inr myPattern"
  then show "selectProbablyCoveredPrefixes Parser RegExpNew r (JArr ref []) = Inr Map.empty"
    by (simp add: selectProbablyCoveredPrefixes_def)
qed

lemma trim_blank: "length (trim ''  '') = 0"
  by code_simp

lemma sample_strip: "replaceFirst finalDollar [] ''/:major?$'' = ''/:major?''"
  by code_simp

text \<open>
  The theorem at a string, at an array with a number, at an array with a blank string and
  at the empty array.
\<close>

theorem selectProbablyCoveredPrefixes_validates_witness:
  "selectProbablyCoveredPrefixes sampleParser literalRegExp sampleRoute (JStr ''/test'')
        = Inl (TypeError ''invalid set of options to filter'')
   \<and> selectProbablyCoveredPrefixes sampleParser literalRegExp sampleRoute (JArr 0 [JStr ''/test'', JNum 1])
        = Inl (TypeError ''invalid set of options to filter'')
   \<and> selectProbablyCoveredPrefixes sampleParser literalRegExp sampleRoute (JArr 0 [JStr ''  ''])
        = Inl (TypeError ''invalid set of options to filter'')
   \<and> selectProbablyCoveredPrefixes sampleParser literalRegExp sampleRoute (JArr 0 []) = Inr Map.empty"
proof -
  have 1: "selectProbablyCoveredPrefixes sampleParser literalRegExp sampleRoute (JStr ''/test'')
        = Inl (TypeError ''invalid set of options to filter'')"
    using selectProbablyCoveredPrefixes_validates[where opts = "JStr ''/test''"] by simp
  have 2: "selectProbablyCoveredPrefixes sampleParser literalRegExp sampleRoute (JArr 0 [JStr ''/test'', JNum 1])
        = Inl (TypeError ''invalid set of options to filter'')"
    using selectProbablyCoveredPrefixes_validates[where x = "JNum 1" and xs = "[JStr ''/test'', JNum 1]"] by simp
  have 3: "selectProbablyCoveredPrefixes sampleParser literalRegExp sampleRoute (JArr 0 [JStr ''  ''])
        = Inl (TypeError ''invalid set of options to filter'')"
    using selectProbablyCoveredPrefixes_validates[where x = "JStr ''  ''" and xs = "[JStr ''  '']"] trim_blank by simp
  have 4: "selectProbablyCoveredPrefixes sampleParser literalRegExp sampleRoute (JArr 0 []) = Inr Map.empty"
    using selectProbablyCoveredPrefixes_validates[where Parser = sampleParser and r = sampleRoute
        and src = "''/:major?$''" and dummy = "[]" and RegExpNew = literalRegExp]
    by (simp add: sampleParser_def sampleRoute_def literalRegExp_def sample_strip)
  from 1 2 3 4 show ?thesis by blast
qed

section \<open>Candidates the pattern matches\<close>

lemma coverLoop_other:
  "c \<notin> set cs \<Longrightarrow> coverLoop myPattern cs covered c = covered c"
  by (induction cs arbitrary: covered) (auto simp: assign_def split: option.splits)

lemma coverLoop_classifies:
  assumes "c \<in> set cs" "c \<noteq> ''__proto__''"
  shows "coverLoop myPattern cs covered c =
           (case myPattern c of
              None \<Rightarrow> covered c
            | Some m \<Rightarrow> Some (if m = c then MATCH_FULL else MATCH_PARTIAL))"
  using assms
proof (induction cs arbitrary: covered)
  case Nil
  then show ?case by simp
next
  case (Cons x xs)
  show ?case
  proof (cases "c \<in> set xs")
    case True
    from Cons.IH[OF True Cons.prems(2)] show ?thesis
      by (cases "x = c") (auto simp: assign_def split: option.splits)
  next
    case False
    with Cons.prems have "x = c" by simp
    with False Cons.prems(2) show ?thesis
      by (simp add: coverLoop_other assign_def split: option.splits)
  qed
qed

lemma sample_cover_proto:
  "selectProbablyCoveredPrefixes sampleParser leadingEmptyRegExp sampleRoute (JArr 0 [JStr ''__proto__''])
     = Inr Map.empty"
  by (simp add: selectProbablyCoveredPrefixes_def sampleParser_def sampleRoute_def sample_strip
        leadingEmptyRegExp_def assign_def trim_def isSpace_def)

lemma sample_cover_other:
  "selectProbablyCoveredPrefixes sampleParser leadingEmptyRegExp sampleRoute (JArr 0 [JStr ''/test/name/sub''])
     = Inr [''/test/name/sub'' \<mapsto> MATCH_PARTIAL]"
  by (simp add: selectProbablyCoveredPrefixes_def sampleParser_def sampleRoute_def sample_strip
        leadingEmptyRegExp_def assign_def trim_def isSpace_def)

text \<open>
  Claim C9 at the candidate \<open>__proto__\<close>. The pattern matches the empty leading portion of
  both candidates; \<open>/test/name/sub\<close> is reported as partially covered, \<open>__proto__\<close> is
  left out of the result, because the result is an object literal and assigning a number
  to its key \<open>__proto__\<close> creates no property.
\<close>

theorem covered_prefix_proto_omitted:
  "selectProbablyCoveredPrefixes sampleParser leadingEmptyRegExp sampleRoute (JArr 0 [JStr ''/test/name/sub''])
     = Inr [''/test/name/sub'' \<mapsto> MATCH_PARTIAL]
   \<and> selectProbablyCoveredPrefixes sampleParser leadingEmptyRegExp sampleRoute (JArr 0 [JStr ''__proto__''])
     = Inr Map.empty"
  using sample_cover_proto sample_cover_other by simp

section \<open>Targets that cannot be resolved\<close>

lemma parseTarget_missing_method:
  "parseTarget TerminalRoute id id missingMethodTarget sampleRegistry
     = Inr \<lparr> ct_handler = JUndefined, ct_args = [],
             ct_warning = JStr ''invalid route to missing controller action Custom.missing'' \<rparr>"
  by code_simp

lemma parseTarget_not_callable:
  "parseTarget TerminalRoute id id (TargetString ''Custom::version'') sampleRegistry
     = Inr \<lparr> ct_handler = JStr ''1.0'', ct_args = [],
             ct_warning = JStr ''invalid route to missing controller action Custom.version'' \<rparr>"
  by code_simp

lemma parseTarget_missing_symbol:
  "parseTarget TerminalRoute id id (TargetString ''Filter::myImplementation'') sampleRegistry
     = Inr \<lparr> ct_handler = JNull, ct_args = [],
             ct_warning = JStr ''invalid route to missing controller Filter (to contain action myImplementation)'' \<rparr>"
  by code_simp

lemma parseSource_root:
  "parseSource call sampleParser sampleCompiler (JStr ''/'') False
     = Inr \<lparr> cs_method = ''ALL'', cs_definition = ''/'', cs_pattern = ''/$'',
             cs_parameters = [], cs_prefix = ''/'', cs_render = (\<lambda>vs. Inr ''/'') \<rparr>"
  by (simp add: parseSource_def preparse_bare prefix_root sampleParser_def
        sampleCompiler_def sourceEnd_def del: preparseSource.simps)

lemma route_valid_iff_callable:
  "newRoute v call Parser Compiler k c source tgt a imp = Inr r \<Longrightarrow> r_isValid r = isFunction (r_handler r)"
  by (auto simp: newRoute_def split: sum.splits)

text \<open>
  Claim C1 at a target whose symbol is in the collection while its method is no function.
  The route is made and reports the warning, and it is not valid; its handler is what
  reading the property gave, \<open>undefined\<close> for a missing method and the string for a
  property that holds a string, and not \<open>null\<close>.
\<close>

theorem unresolved_method_handler_not_null:
  "(\<exists>r. newTerminalRoute call sampleParser sampleCompiler id id (JStr ''/'') missingMethodTarget sampleRegistry = Inr r
        \<and> r_handler r = JUndefined \<and> r_isValid r = False
        \<and> r_warning r = JStr ''invalid route to missing controller action Custom.missing'')
   \<and> (\<exists>r. newTerminalRoute call sampleParser sampleCompiler id id (JStr ''/'') (TargetString ''Custom::version'') sampleRegistry = Inr r
        \<and> r_handler r = JStr ''1.0'' \<and> r_isValid r = False
        \<and> r_warning r = JStr ''invalid route to missing controller action Custom.version'')"
  by (simp add: newTerminalRoute_def newRoute_def parseSource_root parseTarget_missing_method
        parseTarget_not_callable)

lemma resolveTarget_reports:
  assumes "map_of runtime (collectionPluralName v) = Some implementations"
  shows "\<exists>ct. resolveTarget v k c runtime module method args = Inr ct
           \<and> (isFunction (ct_handler ct)
                \<or> (ct_args ct = [] \<and> (\<exists>w. ct_warning ct = JStr w \<and> w \<noteq> [])))"
  using assms by (simp add: resolveTarget_def Let_def split: option.splits)

lemma missing_symbol_handler_null:
  assumes "map_of runtime (collectionPluralName v) = Some implementations"
    "find (\<lambda>n. map_of implementations n \<noteq> None)
          [replaceFirst (tailPattern v) [] module, k (replaceFirst (tailPattern v) [] module),
           c (replaceFirst (tailPattern v) [] module)] = None"
  shows "\<exists>w. resolveTarget v k c runtime module method args
               = Inr \<lparr> ct_handler = JNull, ct_args = [], ct_warning = JStr w \<rparr> \<and> w \<noteq> []"
  using assms by (simp add: resolveTarget_def Let_def)


section \<open>Entries of a set with the same source\<close>

lemma three_duplicates:
  "normalizeSet call (JArr 0 [JArr 1 [JStr ''GET /a'', JStr ''A::x''],
                         JArr 2 [JStr ''GET /a'', JStr ''B::y''],
                         JArr 3 [JStr ''GET /a'', JStr ''C::z'']])
     = Inr [(JStr ''GET /a'', Collected [Collected [Given (JStr ''A::x''), Given (JStr ''B::y'')],
                                          Given (JStr ''C::z'')])]"
  by code_simp

lemma two_duplicates:
  "normalizeSet call (JArr 0 [JArr 1 [JStr ''GET /a'', JStr ''A::x''],
                         JArr 2 [JStr ''GET /a'', JStr ''B::y'']])
     = Inr [(JStr ''GET /a'', Collected [Given (JStr ''A::x''), Given (JStr ''B::y'')])]"
  by code_simp

text \<open>
  Claim C2 at two and at three entries of an array with the same source. Two targets are
  bound as one array of both; with the third, the array of the first two becomes the
  first element of a new array of two elements: the code asks whether the source is an
  array where it means the value found in the map.
\<close>

theorem normalizeSet_nests_duplicates:
  "normalizeSet call (JArr 0 [JArr 1 [JStr ''GET /a'', JStr ''A::x''],
                         JArr 2 [JStr ''GET /a'', JStr ''B::y'']])
     = Inr [(JStr ''GET /a'', Collected [Given (JStr ''A::x''), Given (JStr ''B::y'')])]
   \<and> normalizeSet call (JArr 0 [JArr 1 [JStr ''GET /a'', JStr ''A::x''],
                         JArr 2 [JStr ''GET /a'', JStr ''B::y''],
                         JArr 3 [JStr ''GET /a'', JStr ''C::z'']])
     = Inr [(JStr ''GET /a'', Collected [Collected [Given (JStr ''A::x''), Given (JStr ''B::y'')],
                                          Given (JStr ''C::z'')])]"
  using two_duplicates three_duplicates by simp

section \<open>The number of examples\<close>













lemma six_is_array_length:
  "int (prod_list (map cardinality (r_parameters optionalThenRepeated))) \<le> maxArrayLength"
  by code_simp










section \<open>Stages in a raw definition\<close>

lemma hasOwnProperty_plain:
  assumes "''hasOwnProperty'' \<notin> fst ` set ps"
  shows "hasOwnProperty call (JObj r ps) k = Inr (k \<in> fst ` set ps)"
proof -
  from assms have n: "map_of ps ''hasOwnProperty'' = None" by (simp add: map_of_eq_None_iff)
  have k: "(map_of ps k \<noteq> None) = (k \<in> fst ` set ps)" by (simp add: map_of_eq_None_iff)
  show ?thesis unfolding hasOwnProperty.simps n k by simp
qed

lemma stageSwitch_fields:
  "explicit (stageSwitch sAll x st) = (explicit st \<and> stageName x)"
  "foundExplicit (stageSwitch sAll x st) = (foundExplicit st \<or> stageName x)"
  "unexpectedStages (stageSwitch sAll x st)
     = (unexpectedStages st \<or> (\<not> sAll \<and> (x = ''early'' \<or> x = ''late'')))"
  by (auto simp: stageSwitch_def stageName_def)

lemma checkStages_plain:
  assumes "\<forall>x \<in> set names. hasOwnProperty call raw x = Inr True"
  shows "\<exists>st'. checkStages call sAll raw names n st = Inr st'
           \<and> explicit st' = (explicit st \<and> list_all stageName (take n names))
           \<and> foundExplicit st' = (foundExplicit st \<or> list_ex stageName (take n names))
           \<and> unexpectedStages st'
                = (unexpectedStages st
                     \<or> (\<not> sAll \<and> list_ex (\<lambda>x. x = ''early'' \<or> x = ''late'') (take n names)))"
  using assms
proof (induction names arbitrary: n st)
  case Nil
  then show ?case by simp
next
  case (Cons x xs)
  from Cons.prems have own: "hasOwnProperty call raw x = Inr True"
    and rest: "\<forall>x \<in> set xs. hasOwnProperty call raw x = Inr True" by simp_all
  show ?case
  proof (cases n)
    case 0
    with own show ?thesis by simp
  next
    case (Suc m)
    from Cons.IH[OF rest, of m "stageSwitch sAll x st"] obtain st' where
      "checkStages call sAll raw xs m (stageSwitch sAll x st) = Inr st'"
      "explicit st' = (explicit (stageSwitch sAll x st) \<and> list_all stageName (take m xs))"
      "foundExplicit st' = (foundExplicit (stageSwitch sAll x st) \<or> list_ex stageName (take m xs))"
      "unexpectedStages st'
         = (unexpectedStages (stageSwitch sAll x st)
              \<or> (\<not> sAll \<and> list_ex (\<lambda>x. x = ''early'' \<or> x = ''late'') (take m xs)))"
      by blast
    with own Suc show ?thesis by (auto simp: stageSwitch_fields)
  qed
qed

lemma stage_names_few:
  assumes "distinct names" "list_all stageName (take 5 names)"
  shows "take 5 names = names"
proof -
  let ?S = "{''early'', ''late'', ''before'', ''after''}"
  from assms(2) have "set (take 5 names) \<subseteq> ?S"
    by (auto simp: list_all_iff stageName_def)
  then have "card (set (take 5 names)) \<le> card ?S" by (intro card_mono) auto
  moreover have "card ?S = 4" by simp
  moreover from assms(1) have "card (set (take 5 names)) = length (take 5 names)"
    by (intro distinct_card distinct_take)
  ultimately have "length (take 5 names) \<le> 4" by simp
  then have "length names \<le> 4" by simp
  then show ?thesis by simp
qed

lemma preparse_early: "preparseSource call (JStr ''early'') = Inl (TypeError ''invalid URL in route %s'')"
  by code_simp

lemma preparse_late: "preparseSource call (JStr ''late'') = Inl (TypeError ''invalid URL in route %s'')"
  by code_simp

lemma preparse_before: "preparseSource call (JStr ''before'') = Inl (TypeError ''invalid URL in route %s'')"
  by code_simp

lemma preparse_after: "preparseSource call (JStr ''after'') = Inl (TypeError ''invalid URL in route %s'')"
  by code_simp

lemma preparse_stageName:
  "stageName n \<Longrightarrow> preparseSource call (JStr n) = Inl (TypeError ''invalid URL in route %s'')"
  unfolding stageName_def using preparse_early preparse_late preparse_before preparse_after by blast

lemma addProperties_fails:
  assumes "\<forall>k \<in> fst ` set ps. hasOwnProperty call raw k = Inr True"
    "n \<in> fst ` set ps" "preparseSource call (JStr n) = Inl e"
  shows "\<exists>e'. addProperties call raw m ps = Inl e'"
  using assms(1,2)
proof (induction ps arbitrary: m)
  case Nil
  then show ?case by simp
next
  case (Cons p ps)
  obtain k v where p: "p = (k, v)" by (cases p) auto
  with Cons.prems(1) have own: "hasOwnProperty call raw k = Inr True"
    and rest: "\<forall>k \<in> fst ` set ps. hasOwnProperty call raw k = Inr True" by simp_all
  show ?case
  proof (cases "preparseSource call (JStr k)")
    case (Inl e1)
    with p own show ?thesis by (simp del: preparseSource.simps)
  next
    case (Inr src)
    with assms(3) have "k \<noteq> n" by auto
    with Cons.prems(2) p have "n \<in> fst ` set ps" by auto
    from Cons.IH[OF rest this] Inr p own show ?thesis by (simp del: preparseSource.simps)
  qed
qed

lemma normalizeDefinition_object:
  assumes "''hasOwnProperty'' \<notin> fst ` set ps"
  shows "normalizeDefinition call True sAll (JObj r ps) =
     (if list_ex stageName (take 5 (map fst ps)) \<and> \<not> list_all stageName (take 5 (map fst ps))
         then Inl (TypeError ''invalid mix of routing definitions with and without routing slot selection'')
         else if \<not> list_all stageName (take 5 (map fst ps))
         then implicitStage call True sAll (JObj r ps)
         else if \<not> sAll \<and> list_ex (\<lambda>x. x = ''early'' \<or> x = ''late'') (take 5 (map fst ps))
         then Inl (TypeError ''got one or more unexpected stages in route definition'')
         else (case fillStages call (JObj r ps)
                      (if sAll then [''early'', ''before'', ''after'', ''late'']
                       else [''before'', ''after'']) of
                 Inl e \<Rightarrow> Inl e
               | Inr stages \<Rightarrow> Inr (Staged stages)))"
proof -
  have "\<forall>x \<in> set (map fst ps). hasOwnProperty call (JObj r ps) x = Inr True"
    using hasOwnProperty_plain[OF assms] by simp
  from checkStages_plain[OF this, of sAll 5 "\<lparr> explicit = True, foundExplicit = False, unexpectedStages = False \<rparr>"]
  obtain st where st: "checkStages call sAll (JObj r ps) (map fst ps) 5
        \<lparr> explicit = True, foundExplicit = False, unexpectedStages = False \<rparr> = Inr st"
    "explicit st = list_all stageName (take 5 (map fst ps))"
    "foundExplicit st = list_ex stageName (take 5 (map fst ps))"
    "unexpectedStages st
       = (\<not> sAll \<and> list_ex (\<lambda>x. x = ''early'' \<or> x = ''late'') (take 5 (map fst ps)))"
    by auto
  show ?thesis
    by (simp add: normalizeDefinition_def Let_def st del: checkStages.simps fillStages.simps)
qed

lemma mix_in_first_five:
  assumes "''hasOwnProperty'' \<notin> fst ` set ps"
    "stageName a" "a \<in> set (take 5 (map fst ps))" "\<not> stageName b" "b \<in> set (take 5 (map fst ps))"
  shows "normalizeDefinition call True sAll (JObj r ps)
           = Inl (TypeError ''invalid mix of routing definitions with and without routing slot selection'')"
proof -
  from assms(2,3) have f: "list_ex stageName (take 5 (map fst ps))" unfolding list_ex_iff by blast
  from assms(4,5) have e: "\<not> list_all stageName (take 5 (map fst ps))" unfolding list_all_iff by blast
  show ?thesis unfolding normalizeDefinition_object[OF assms(1)] using f e by simp
qed

lemma mix_anywhere:
  assumes "''hasOwnProperty'' \<notin> fst ` set ps"
    "distinct (map fst ps)" "stageName a" "a \<in> fst ` set ps" "\<not> stageName b" "b \<in> fst ` set ps"
  shows "\<exists>e. normalizeDefinition call True sAll (JObj r ps) = Inl e"
proof -
  let ?names = "map fst ps"
  have ne: "\<not> list_all stageName (take 5 ?names)"
  proof
    assume all: "list_all stageName (take 5 ?names)"
    from stage_names_few[OF assms(2) all] have "take 5 ?names = ?names" .
    with all have "list_all stageName ?names" by simp
    with assms(5,6) show False by (auto simp: list_all_iff)
  qed
  have own: "\<forall>k \<in> fst ` set ps. hasOwnProperty call (JObj r ps) k = Inr True"
    using hasOwnProperty_plain[OF assms(1)] by simp
  from addProperties_fails[OF own assms(4) preparse_stageName[OF assms(3)], of "[]"]
  obtain e' where "addProperties call (JObj r ps) [] ps = Inl e'" by blast
  then have i: "implicitStage call True sAll (JObj r ps) = Inl e'" by (simp add: implicitStage_def)
  show ?thesis unfolding normalizeDefinition_object[OF assms(1)] using ne i by simp
qed

lemma unsupported_stage:
  assumes "distinct (map fst ps)" "\<forall>n \<in> fst ` set ps. stageName n"
    "''early'' \<in> fst ` set ps \<or> ''late'' \<in> fst ` set ps"
  shows "normalizeDefinition call True False (JObj r ps)
           = Inl (TypeError ''got one or more unexpected stages in route definition'')"
proof -
  let ?names = "map fst ps"
  have "\<not> stageName ''hasOwnProperty''" by (simp add: stageName_def)
  with assms(2) have plain: "''hasOwnProperty'' \<notin> fst ` set ps" by blast
  from assms(2) have all: "list_all stageName ?names" by (auto simp: list_all_iff)
  have "list_all stageName (take 5 ?names)"
    unfolding list_all_iff
  proof
    fix x assume "x \<in> set (take 5 ?names)"
    then have "x \<in> set ?names" by (rule in_set_takeD)
    then have "x \<in> fst ` set ps" by simp
    with assms(2) show "stageName x" by blast
  qed
  from stage_names_few[OF assms(1) this] have t: "take 5 ?names = ?names" .
  from assms(3) have "\<exists>x \<in> fst ` set ps. x = ''early'' \<or> x = ''late''" by blast
  then have u: "list_ex (\<lambda>x. x = ''early'' \<or> x = ''late'') ?names"
    unfolding list_ex_iff by simp
  show ?thesis unfolding normalizeDefinition_object[OF plain] t using all u by simp
qed

text \<open>
  Stages and other names in one definition. Let a raw definition be a plain object (its
  property names are distinct) without a property named \<open>hasOwnProperty\<close>, and let the
  normalizer support explicit stages. When one of its names is a stage and another is not, normalization
  fails; the error is the one about the invalid mix when both are among the first five
  names, which are all the loop looks at, and otherwise the stage fails as a route
  source. When every name is a stage and \<open>early\<close> or \<open>late\<close> is among them, the
  normalizer that supports \<open>before\<close> and \<open>after\<close> only fails with the error about
  unexpected stages.
\<close>

lemma stage_mix_rejected_unless_shadowed:
  assumes "distinct (map fst ps)" "''hasOwnProperty'' \<notin> fst ` set ps"
  shows "(stageName a \<and> a \<in> fst ` set ps \<and> \<not> stageName b \<and> b \<in> fst ` set ps \<longrightarrow>
            (\<exists>e. normalizeDefinition call True supportAllStages (JObj r ps) = Inl e))
       \<and> (stageName a \<and> a \<in> set (take 5 (map fst ps)) \<and> \<not> stageName b \<and> b \<in> set (take 5 (map fst ps)) \<longrightarrow>
            normalizeDefinition call True supportAllStages (JObj r ps)
              = Inl (TypeError ''invalid mix of routing definitions with and without routing slot selection''))
       \<and> ((\<forall>n \<in> fst ` set ps. stageName n) \<and> (''early'' \<in> fst ` set ps \<or> ''late'' \<in> fst ` set ps) \<longrightarrow>
            normalizeDefinition call True False (JObj r ps)
              = Inl (TypeError ''got one or more unexpected stages in route definition''))"
proof (intro conjI impI)
  assume h: "stageName a \<and> a \<in> fst ` set ps \<and> \<not> stageName b \<and> b \<in> fst ` set ps"
  then have "stageName a" "a \<in> fst ` set ps" "\<not> stageName b" "b \<in> fst ` set ps" by simp_all
  then show "\<exists>e. normalizeDefinition call True supportAllStages (JObj r ps) = Inl e"
    by (rule mix_anywhere[OF assms(2,1)])
next
  assume h: "stageName a \<and> a \<in> set (take 5 (map fst ps)) \<and> \<not> stageName b \<and> b \<in> set (take 5 (map fst ps))"
  then have "stageName a" "a \<in> set (take 5 (map fst ps))" "\<not> stageName b" "b \<in> set (take 5 (map fst ps))"
    by simp_all
  then show "normalizeDefinition call True supportAllStages (JObj r ps)
              = Inl (TypeError ''invalid mix of routing definitions with and without routing slot selection'')"
    by (rule mix_in_first_five[OF assms(2)])
next
  assume h: "(\<forall>n \<in> fst ` set ps. stageName n) \<and> (''early'' \<in> fst ` set ps \<or> ''late'' \<in> fst ` set ps)"
  then have "\<forall>n \<in> fst ` set ps. stageName n" "''early'' \<in> fst ` set ps \<or> ''late'' \<in> fst ` set ps"
    by blast+
  then show "normalizeDefinition call True False (JObj r ps)
              = Inl (TypeError ''got one or more unexpected stages in route definition'')"
    by (rule unsupported_stage[OF assms(1)])
qed

lemma stage_mix_samples:
  "normalizePlugin call mixedDefinition
     = Inl (TypeError ''invalid mix of routing definitions with and without routing slot selection'')
   \<and> normalizeCustom call mixedDefinition
     = Inl (TypeError ''invalid mix of routing definitions with and without routing slot selection'')
   \<and> normalizePlugin call earlyDefinition
     = Inl (TypeError ''got one or more unexpected stages in route definition'')
   \<and> normalizePlugin call lateMixDefinition = Inl (TypeError ''invalid URL in route %s'')"
  by code_simp

text \<open>
  Claim C7 at a definition that holds the stage \<open>before\<close> beside a property named
  \<open>hasOwnProperty\<close> whose value is a function that returns nothing, as a handler does.
  The name \<open>hasOwnProperty\<close> is no stage, so the definition mixes a stage with another
  key. The normalizers ask \<open>rawDefinition.hasOwnProperty( name )\<close>, which calls that
  function: it answers no for every name, so no name is examined, no error is raised,
  and the result is the table of empty stages; the routes of \<open>before\<close> are dropped.
\<close>

theorem stage_mix_accepted_when_shadowed:
  "normalizePlugin returnsUndefined shadowedDefinition
     = Inr (Staged [(''before'', []), (''after'', [])])
   \<and> normalizeCustom returnsUndefined shadowedDefinition
     = Inr (Staged [(''early'', []), (''before'', []), (''after'', []), (''late'', [])])
   \<and> list_ex stageName (ownNames shadowedDefinition)
   \<and> list_ex (\<lambda>n. \<not> stageName n) (ownNames shadowedDefinition)"
  by code_simp

end
